theory Spec2Isabelle
  imports Complex_Main
begin

section \<open>JavaScript values and strings\<close>

text \<open>
  The two route handlers read the fields of a parsed JSON body. A field is
  absent (\<open>Undefined\<close>), \<open>null\<close>, a string, or some other JSON value (a
  boolean, a number, an array, an object). For the last kind the handlers
  only ever use its truthiness and its string form (\<open>RegExp.test\<close> and the
  query filter convert their argument to a string), so \<open>Other\<close> carries
  exactly those two. Calling a string method on a non-string value raises
  \<open>TypeError\<close>.

  Strings are \<open>char list\<close>s; a \<open>char\<close> stands for the code unit of the same
  number, U+0000 to U+00FF. On that range \<open>\s\<close> and \<open>trim\<close> agree on seven
  white-space characters (TAB, LF, VT, FF, CR, SP and the no-break space
  U+00A0), and \<open>toLowerCase\<close> maps \<open>A\<close> to \<open>Z\<close> and the capital letters U+00C0
  to U+00DE, the multiplication sign U+00D7 apart, to the letter 32 places
  further on, and nothing else.
\<close>

datatype jsval = Undefined | Null | Str string | Other bool string

datatype exn = TypeError | RangeError

fun truthy :: "jsval \<Rightarrow> bool" where
  "truthy Undefined = False"
| "truthy Null = False"
| "truthy (Str s) = (s \<noteq> [])"
| "truthy (Other b s) = b"

fun ToString :: "jsval \<Rightarrow> string" where
  "ToString Undefined = ''undefined''"
| "ToString Null = ''null''"
| "ToString (Str s) = s"
| "ToString (Other b s) = s"

definition is_space :: "char \<Rightarrow> bool" where
  "is_space c =
     (c \<in> set [CHR 0x09, CHR 0x0A, CHR 0x0B, CHR 0x0C, CHR 0x0D, CHR 0x20, CHR 0xA0])"

definition trim :: "string \<Rightarrow> string" where
  "trim s = rev (dropWhile is_space (rev (dropWhile is_space s)))"

definition upper_letters :: string where
  "upper_letters =
     ''ABCDEFGHIJKLMNOPQRSTUVWXYZ'' @
     [CHR 0xC0, CHR 0xC1, CHR 0xC2, CHR 0xC3, CHR 0xC4, CHR 0xC5, CHR 0xC6, CHR 0xC7,
      CHR 0xC8, CHR 0xC9, CHR 0xCA, CHR 0xCB, CHR 0xCC, CHR 0xCD, CHR 0xCE, CHR 0xCF,
      CHR 0xD0, CHR 0xD1, CHR 0xD2, CHR 0xD3, CHR 0xD4, CHR 0xD5, CHR 0xD6,
      CHR 0xD8, CHR 0xD9, CHR 0xDA, CHR 0xDB, CHR 0xDC, CHR 0xDD, CHR 0xDE]"

definition lower_letters :: string where
  "lower_letters =
     ''abcdefghijklmnopqrstuvwxyz'' @
     [CHR 0xE0, CHR 0xE1, CHR 0xE2, CHR 0xE3, CHR 0xE4, CHR 0xE5, CHR 0xE6, CHR 0xE7,
      CHR 0xE8, CHR 0xE9, CHR 0xEA, CHR 0xEB, CHR 0xEC, CHR 0xED, CHR 0xEE, CHR 0xEF,
      CHR 0xF0, CHR 0xF1, CHR 0xF2, CHR 0xF3, CHR 0xF4, CHR 0xF5, CHR 0xF6,
      CHR 0xF8, CHR 0xF9, CHR 0xFA, CHR 0xFB, CHR 0xFC, CHR 0xFD, CHR 0xFE]"

definition toLowerChar :: "char \<Rightarrow> char" where
  "toLowerChar c =
     (case map_of (zip upper_letters lower_letters) c of
        Some d \<Rightarrow> d
      | None \<Rightarrow> c)"

definition toLowerCase :: "string \<Rightarrow> string" where
  "toLowerCase s = map toLowerChar s"

text \<open>\<open>v.trim()\<close> and \<open>v.toLowerCase()\<close> on a body field.\<close>

fun js_trim :: "jsval \<Rightarrow> exn + string" where
  "js_trim (Str s) = Inr (trim s)"
| "js_trim v = Inl TypeError"

fun js_toLowerCase :: "jsval \<Rightarrow> exn + string" where
  "js_toLowerCase (Str s) = Inr (toLowerCase s)"
| "js_toLowerCase v = Inl TypeError"

text \<open>
  \<open>note?.trim() || null\<close>: optional chaining stops at \<open>undefined\<close> and \<open>null\<close>
  only, and the empty string is falsy, so an all-blank note is stored as
  \<open>null\<close>.
\<close>

fun note_value :: "jsval \<Rightarrow> exn + string option" where
  "note_value Undefined = Inr None"
| "note_value Null = Inr None"
| "note_value (Str s) = Inr (if trim s = [] then None else Some (trim s))"
| "note_value (Other b s) = Inl TypeError"

text \<open>
  \<open>/^[^\s@]+@[^\s@]+\.[^\s@]+$/\<close>. The class \<open>[^\s@]\<close> excludes \<open>@\<close>, so the
  first group is the longest prefix of class characters and must be followed
  by \<open>@\<close>; the class includes the dot, so the rest matches when it consists
  of class characters and has a dot that is neither its first nor its last
  character.
\<close>

definition email_class :: "char \<Rightarrow> bool" where
  "email_class c = (\<not> is_space c \<and> c \<noteq> CHR ''@'')"

definition emailRegex_test :: "string \<Rightarrow> bool" where
  "emailRegex_test s =
     (takeWhile email_class s \<noteq> [] \<and>
      (case dropWhile email_class s of
         [] \<Rightarrow> False
       | c # d \<Rightarrow>
           c = CHR ''@'' \<and> list_all email_class d \<and>
           CHR ''.'' \<in> set (butlast (tl d))))"

section \<open>The two tables and the data store\<close>

text \<open>
  Rows of \<open>founders_requests\<close> and \<open>founders_invite_codes\<close>, with the columns
  the handlers read and write. Identifiers are strings; time stamps are
  milliseconds since the epoch (an ISO string stands for the instant it
  prints).
\<close>

record founders_request =
  r_id :: string
  r_full_name :: string
  r_email :: string
  r_phone :: string
  r_profession :: string
  r_note :: "string option"
  r_status :: string
  r_created_at :: int

record invite_code =
  c_id :: string
  c_code :: string
  c_email :: string
  c_phone :: string
  c_request_id :: string
  c_expires_at :: int

record mail =
  mail_to :: string
  mail_name :: string
  mail_code :: string
  mail_expires :: int

record store =
  founders_requests :: "founders_request list"
  founders_invite_codes :: "invite_code list"
  outbox :: "mail list"

text \<open>
  The hosted data store is outside the repository. What the handlers rely on
  is the client's result pair \<open>{data, error}\<close>, which every call site
  destructures: a query that fails (network, server) yields \<open>data = null\<close>
  and an error, and never throws. \<open>.single()\<close>
  yields the row when exactly one row matches, and \<open>data = null\<close> with an
  error when none or several match. Whether a given call fails is decided
  by the environment of the call, a parameter of each handler.
\<close>

definition single :: "bool \<Rightarrow> 'a list \<Rightarrow> 'a option \<times> bool" where
  "single fails rows =
     (if fails then (None, True)
      else case rows of [r] \<Rightarrow> (Some r, False) | _ \<Rightarrow> (None, True))"

section \<open>Request intake: POST /api/founders/request\<close>

record request_body =
  fullName :: jsval
  email :: jsval
  phone :: jsval
  profession :: jsval
  noteField :: jsval

text \<open>
  The environment of one intake call: which of its three store calls fail,
  and the identifier and creation time the store gives the inserted row.
\<close>

record request_env =
  pending_check_fails :: bool
  approved_check_fails :: bool
  insert_fails :: bool
  new_id :: string
  inserted_at :: int

datatype intake_response =
  Intake_error nat string
| Intake_ok string

definition insert_payload :: "request_env \<Rightarrow> request_body \<Rightarrow> exn + founders_request" where
  "insert_payload env body =
     (case js_trim (fullName body) of Inl e \<Rightarrow> Inl e | Inr fn \<Rightarrow>
     (case js_toLowerCase (email body) of Inl e \<Rightarrow> Inl e | Inr lower \<Rightarrow>
     (case js_trim (phone body) of Inl e \<Rightarrow> Inl e | Inr ph \<Rightarrow>
     (case js_trim (profession body) of Inl e \<Rightarrow> Inl e | Inr pr \<Rightarrow>
     (case note_value (noteField body) of Inl e \<Rightarrow> Inl e | Inr nt \<Rightarrow>
        Inr \<lparr> r_id = new_id env, r_full_name = fn, r_email = trim lower, r_phone = ph,
              r_profession = pr, r_note = nt, r_status = ''pending'',
              r_created_at = inserted_at env \<rparr>)))))"

definition matching :: "string \<Rightarrow> string \<Rightarrow> founders_request list \<Rightarrow> founders_request list" where
  "matching e st rows = filter (\<lambda>r. r_email r = e \<and> r_status r = st) rows"

text \<open>The body of the handler's \<open>try\<close> block; \<open>Inl\<close> is a thrown exception.\<close>

definition POST_request_try ::
  "request_env \<Rightarrow> store \<Rightarrow> request_body \<Rightarrow> exn + (intake_response \<times> store)" where
  "POST_request_try env db body =
     (if \<not> truthy (fullName body) \<or> \<not> truthy (email body) \<or>
         \<not> truthy (phone body) \<or> \<not> truthy (profession body)
      then Inr (Intake_error 400 ''All required fields must be provided'', db)
      else if \<not> emailRegex_test (ToString (email body))
      then Inr (Intake_error 400 ''Invalid email format'', db)
      else
       (case js_toLowerCase (email body) of Inl e \<Rightarrow> Inl e | Inr lower \<Rightarrow>
       (case fst (single (pending_check_fails env)
                    (matching lower ''pending'' (founders_requests db))) of
          Some existingRequest \<Rightarrow>
            Inr (Intake_error 400
                  ''You already have a pending request. Please wait for approval.'', db)
        | None \<Rightarrow>
       (case fst (single (approved_check_fails env)
                    (matching lower ''approved'' (founders_requests db))) of
          Some approvedRequest \<Rightarrow>
            Inr (Intake_error 400
                  ''This email is already approved. Please check your email for the invite code.'', db)
        | None \<Rightarrow>
       (case insert_payload env body of Inl e \<Rightarrow> Inl e | Inr row \<Rightarrow>
          if insert_fails env
          then Inr (Intake_error 500 ''Failed to submit request. Please try again.'', db)
          else Inr (Intake_ok (r_id row),
                    db\<lparr>founders_requests := founders_requests db @ [row]\<rparr>))))))"

definition POST_request :: "request_env \<Rightarrow> store \<Rightarrow> request_body \<Rightarrow> intake_response \<times> store" where
  "POST_request env db body =
     (case POST_request_try env db body of
        Inr res \<Rightarrow> res
      | Inl e \<Rightarrow> (Intake_error 500 ''An unexpected error occurred'', db))"

section \<open>Status lookup: GET /api/founders/request?email=\<close>

datatype status_response =
  Status_error nat string
| Status_none
| Status_found string int

text \<open>
  \<open>searchParams.get\<close> gives a string or \<open>null\<close>. The query orders the rows
  of the email by \<open>created_at\<close>, latest first, and keeps one.
\<close>

definition GET_request :: "bool \<Rightarrow> store \<Rightarrow> string option \<Rightarrow> status_response" where
  "GET_request lookup_fails db email_param =
     (case email_param of
        None \<Rightarrow> Status_error 400 ''Email is required''
      | Some e \<Rightarrow>
          (if e = [] then Status_error 400 ''Email is required''
           else if lookup_fails then Status_error 500 ''Failed to check status''
           else
             (case take 1 (sort_key (\<lambda>r. - r_created_at r)
                            (filter (\<lambda>r. r_email r = toLowerCase e) (founders_requests db))) of
                [] \<Rightarrow> Status_none
              | r # rs \<Rightarrow> Status_found (r_status r) (r_created_at r))))"

section \<open>Approval: POST /api/founders/approve\<close>

subsection \<open>The code generator\<close>

text \<open>
  \<open>Math.random()\<close> gives a number \<open>r\<close> with \<open>0 \<le> r < 1\<close>. The numbers drawn
  while one request is served are a sequence \<open>rnd\<close>; a call of the generator
  that starts at position \<open>pos\<close> reads \<open>rnd pos\<close>, ..., \<open>rnd (pos + 7)\<close>.
  \<open>charAt\<close> gives the empty string outside the string.
\<close>

definition chars :: string where
  "chars = ''ABCDEFGHJKLMNPQRSTUVWXYZ23456789''"

definition charAt :: "string \<Rightarrow> int \<Rightarrow> string" where
  "charAt s i = (if 0 \<le> i \<and> i < int (length s) then [s ! nat i] else [])"

function gen_loop :: "(nat \<Rightarrow> rat) \<Rightarrow> nat \<Rightarrow> nat \<Rightarrow> string \<Rightarrow> string" where
  "gen_loop rnd pos i code =
     (if i < 8
      then gen_loop rnd pos (i + 1)
             (code @ charAt chars \<lfloor>rnd (pos + i) * of_nat (length chars)\<rfloor>)
      else code)"
  by pat_completeness auto
termination
  by (relation "measure (\<lambda>(rnd, pos, i, code). 8 - i)") auto

definition generateInviteCode :: "(nat \<Rightarrow> rat) \<Rightarrow> nat \<Rightarrow> string" where
  "generateInviteCode rnd pos = ''FC-'' @ gen_loop rnd pos 0 []"

subsection \<open>The expiry date\<close>

text \<open>
  \<open>new Date()\<close> holds a time value, milliseconds since the epoch in UTC.
  \<open>getHours\<close> and \<open>setHours\<close> work on the local time of the host: ECMAScript
  defines them through \<open>LocalTime t = t + LocalTZA(t, true)\<close> and
  \<open>UTC t = t - LocalTZA(t, false)\<close>, where the offset of the host's zone is
  implementation-defined. The zone is therefore a parameter: the offset in
  force at a UTC instant, and the offset used to read a local time value.
\<close>

record host_zone =
  offset_at_utc :: "int \<Rightarrow> int"
  offset_at_local :: "int \<Rightarrow> int"

definition msPerHour :: int where "msPerHour = 3600000"
definition msPerDay :: int where "msPerDay = 86400000"

definition LocalTime :: "host_zone \<Rightarrow> int \<Rightarrow> int" where
  "LocalTime z t = t + offset_at_utc z t"

definition UTC :: "host_zone \<Rightarrow> int \<Rightarrow> int" where
  "UTC z t = t - offset_at_local z t"

definition Day :: "int \<Rightarrow> int" where "Day t = t div msPerDay"
definition HourFromTime :: "int \<Rightarrow> int" where "HourFromTime t = (t div msPerHour) mod 24"
definition MinFromTime :: "int \<Rightarrow> int" where "MinFromTime t = (t div 60000) mod 60"
definition SecFromTime :: "int \<Rightarrow> int" where "SecFromTime t = (t div 1000) mod 60"
definition msFromTime :: "int \<Rightarrow> int" where "msFromTime t = t mod 1000"

definition MakeTime :: "int \<Rightarrow> int \<Rightarrow> int \<Rightarrow> int \<Rightarrow> int" where
  "MakeTime h m s ms = h * msPerHour + m * 60000 + s * 1000 + ms"

definition MakeDate :: "int \<Rightarrow> int \<Rightarrow> int" where
  "MakeDate day time = day * msPerDay + time"

text \<open>A time value out of range is \<open>NaN\<close>, an invalid date: \<open>None\<close>.\<close>

definition TimeClip :: "int \<Rightarrow> int option" where
  "TimeClip t = (if \<bar>t\<bar> > 8640000000000000 then None else Some t)"

definition getHours :: "host_zone \<Rightarrow> int \<Rightarrow> int" where
  "getHours z t = HourFromTime (LocalTime z t)"

definition setHours :: "host_zone \<Rightarrow> int \<Rightarrow> int \<Rightarrow> int option" where
  "setHours z t hour =
     (let lt = LocalTime z t
      in TimeClip (UTC z (MakeDate (Day lt)
                            (MakeTime hour (MinFromTime lt) (SecFromTime lt) (msFromTime lt)))))"

subsection \<open>The handler\<close>

datatype email_outcome = Email_sent | Email_failed | Email_threw

text \<open>
  The environment of one approval call: which store calls fail (the
  uniqueness query is indexed by the value of \<open>attempts\<close> at which it is
  made), the random draws, the clock and zone of the host, the identifier
  the store gives the inserted code row, and what the mail sender does.
\<close>

record approve_env =
  fetch_fails :: bool
  unique_check_fails :: "nat \<Rightarrow> bool"
  math_random :: "nat \<Rightarrow> rat"
  date_now :: int
  zone :: host_zone
  code_insert_fails :: bool
  new_code_id :: string
  status_update_fails :: bool
  mail_result :: email_outcome

datatype approve_response =
  Approve_error nat string
| Approve_ok string int

definition maxAttempts :: nat where "maxAttempts = 10"

text \<open>The two single-row queries of the handler.\<close>

definition select_request :: "approve_env \<Rightarrow> store \<Rightarrow> jsval \<Rightarrow> founders_request option \<times> bool" where
  "select_request env db requestId =
     single (fetch_fails env)
       (filter (\<lambda>r. r_id r = ToString requestId) (founders_requests db))"

definition select_code :: "approve_env \<Rightarrow> invite_code list \<Rightarrow> string \<Rightarrow> nat \<Rightarrow> invite_code option" where
  "select_code env codes inviteCode attempts =
     fst (single (unique_check_fails env attempts)
            (filter (\<lambda>c. c_code c = inviteCode) codes))"

text \<open>
  The \<open>while\<close> loop. Every call of the generator reads eight draws and
  nothing else draws, so the code generated when \<open>attempts\<close> is \<open>k\<close> starts at
  position \<open>8 * (k + 1)\<close> (the first code, made before the loop, at \<open>0\<close>).
\<close>

function unique_loop :: "approve_env \<Rightarrow> invite_code list \<Rightarrow> string \<Rightarrow> nat \<Rightarrow> string \<times> nat" where
  "unique_loop env codes inviteCode attempts =
     (if attempts < maxAttempts
      then
        (case select_code env codes inviteCode attempts of
           None \<Rightarrow> (inviteCode, attempts)
         | Some existing \<Rightarrow>
             unique_loop env codes
               (generateInviteCode (math_random env) (8 * (attempts + 1))) (attempts + 1))
      else (inviteCode, attempts))"
  by pat_completeness auto
termination
  by (relation "measure (\<lambda>(env, codes, inviteCode, attempts). maxAttempts - attempts)") auto

declare unique_loop.simps [simp del]

definition approve_status :: "string \<Rightarrow> founders_request list \<Rightarrow> founders_request list" where
  "approve_status rid rows =
     map (\<lambda>r. if r_id r = rid then r\<lparr>r_status := ''approved''\<rparr> else r) rows"

text \<open>
  \<open>commit_approval\<close> is what the handler does once the row to insert is
  built and the store has accepted it: the code row is in the table, the
  status update is applied unless it fails (the failure is only logged), and
  the mail is handed to the sender, whose failure is only logged too.
  \<open>POST_approve_try\<close> is the body of the handler's \<open>try\<close> block. A request id
  that is not a string is compared and stored through its string form.
  \<open>toISOString\<close> of an invalid date throws \<open>RangeError\<close>, while the row to
  insert is being built.
\<close>

definition commit_approval ::
  "approve_env \<Rightarrow> store \<Rightarrow> jsval \<Rightarrow> founders_request \<Rightarrow> string \<Rightarrow> int \<Rightarrow> store" where
  "commit_approval env db requestId foundersRequest inviteCode expiresAt =
     (let db1 = db\<lparr>founders_invite_codes := founders_invite_codes db @
                  [\<lparr> c_id = new_code_id env, c_code = inviteCode,
                     c_email = r_email foundersRequest,
                     c_phone = r_phone foundersRequest,
                     c_request_id = ToString requestId,
                     c_expires_at = expiresAt \<rparr>]\<rparr>;
          db2 = (if status_update_fails env then db1
                 else db1\<lparr>founders_requests :=
                        approve_status (ToString requestId) (founders_requests db1)\<rparr>)
      in (case mail_result env of
            Email_sent \<Rightarrow>
              db2\<lparr>outbox := outbox db2 @
                [\<lparr> mail_to = r_email foundersRequest,
                   mail_name = r_full_name foundersRequest,
                   mail_code = inviteCode,
                   mail_expires = expiresAt \<rparr>]\<rparr>
          | Email_failed \<Rightarrow> db2
          | Email_threw \<Rightarrow> db2))"

definition POST_approve_try ::
  "approve_env \<Rightarrow> store \<Rightarrow> jsval \<Rightarrow> exn + (approve_response \<times> store)" where
  "POST_approve_try env db requestId =
     (if \<not> truthy requestId
      then Inr (Approve_error 400 ''Request ID is required'', db)
      else
        (case select_request env db requestId of
           (None, fetchError) \<Rightarrow> Inr (Approve_error 404 ''Request not found'', db)
         | (Some foundersRequest, fetchError) \<Rightarrow>
             (if fetchError then Inr (Approve_error 404 ''Request not found'', db)
              else if r_status foundersRequest \<noteq> ''pending''
              then Inr (Approve_error 400 ''Request has already been processed'', db)
              else
                (case unique_loop env (founders_invite_codes db)
                        (generateInviteCode (math_random env) 0) 0 of
                   (inviteCode, attempts) \<Rightarrow>
                     (if attempts \<ge> maxAttempts
                      then Inr (Approve_error 500 ''Failed to generate unique code'', db)
                      else
                        (case setHours (zone env) (date_now env)
                                (getHours (zone env) (date_now env) + 72) of
                           None \<Rightarrow> Inl RangeError
                         | Some expiresAt \<Rightarrow>
                             (if code_insert_fails env
                              then Inr (Approve_error 500 ''Failed to create invite code'', db)
                              else Inr (Approve_ok inviteCode expiresAt,
                                        commit_approval env db requestId foundersRequest
                                          inviteCode expiresAt))))))))"

definition POST_approve :: "approve_env \<Rightarrow> store \<Rightarrow> jsval \<Rightarrow> approve_response \<times> store" where
  "POST_approve env db requestId =
     (case POST_approve_try env db requestId of
        Inr res \<Rightarrow> res
      | Inl e \<Rightarrow> (Approve_error 500 ''An unexpected error occurred'', db))"

section \<open>Vocabulary of the properties\<close>

text \<open>
  The data model gives a request one of two statuses. A submission is a
  duplicate when a pending or an approved request is on file for its
  lower-cased email. A blank string is a non-empty string of white space.
\<close>

definition status_domain :: "store \<Rightarrow> bool" where
  "status_domain db =
     list_all (\<lambda>r. r_status r = ''pending'' \<or> r_status r = ''approved'') (founders_requests db)"

definition duplicate :: "store \<Rightarrow> string \<Rightarrow> bool" where
  "duplicate db e =
     list_ex (\<lambda>r. r_email r = toLowerCase e \<and>
                   (r_status r = ''pending'' \<or> r_status r = ''approved'')) (founders_requests db)"

text \<open>
  What trimming and lower-casing are meant to achieve, said without the
  functions themselves: \<open>t\<close> is \<open>s\<close> stripped when \<open>s\<close> is \<open>t\<close> between two runs
  of white space and \<open>t\<close> neither starts nor ends with white space; \<open>t\<close> is
  \<open>s\<close> lower-cased when it is \<open>s\<close> with every capital letter replaced by its
  small letter and every other character kept.
\<close>

definition stripped :: "string \<Rightarrow> string \<Rightarrow> bool" where
  "stripped s t =
     (\<exists>a b. s = a @ t @ b \<and> list_all is_space a \<and> list_all is_space b \<and>
            (t = [] \<or> (\<not> is_space (hd t) \<and> \<not> is_space (last t))))"

definition lower_cased :: "string \<Rightarrow> string \<Rightarrow> bool" where
  "lower_cased s t =
     (list_all2 (\<lambda>c d. (c, d) \<in> set (zip upper_letters lower_letters) \<or>
                        (c \<notin> set upper_letters \<and> d = c)) s t)"

definition blank :: "string \<Rightarrow> bool" where
  "blank w = (w \<noteq> [] \<and> list_all is_space w)"

definition required_error :: intake_response where
  "required_error = Intake_error 400 ''All required fields must be provided''"

text \<open>
  The code the generator makes at its \<open>k\<close>-th call of one approval, the
  format of a code, and the invariants: every pending row has an email of
  its own, every stored email is in lower case, every code row has a code
  of its own.
\<close>

definition candidate :: "approve_env \<Rightarrow> nat \<Rightarrow> string" where
  "candidate env k = generateInviteCode (math_random env) (8 * k)"

definition code_format :: "string \<Rightarrow> bool" where
  "code_format c =
     (length c = 11 \<and> take 3 c = ''FC-'' \<and>
      list_all (\<lambda>x. x \<in> set ''ABCDEFGHJKLMNPQRSTUVWXYZ23456789'') (drop 3 c))"

definition pending_unique :: "store \<Rightarrow> bool" where
  "pending_unique db =
     distinct (map r_email (filter (\<lambda>r. r_status r = ''pending'') (founders_requests db)))"

definition stored_lower :: "store \<Rightarrow> bool" where
  "stored_lower db =
     list_all (\<lambda>r. toLowerCase (r_email r) = r_email r) (founders_requests db)"

definition codes_unique :: "store \<Rightarrow> bool" where
  "codes_unique db = distinct (map c_code (founders_invite_codes db))"

text \<open>
  Sequences of calls, served one after the other. A call carries its
  environment; a status lookup changes nothing.
\<close>

datatype call =
  Intake request_env request_body
| Lookup bool "string option"
| Approve approve_env jsval

fun step :: "store \<Rightarrow> call \<Rightarrow> store" where
  "step db (Intake env body) = snd (POST_request env db body)"
| "step db (Lookup fails e) = db"
| "step db (Approve env requestId) = snd (POST_approve env db requestId)"

definition run :: "store \<Rightarrow> call list \<Rightarrow> store" where
  "run db calls = foldl step db calls"

fun pending_check_answered :: "call \<Rightarrow> bool" where
  "pending_check_answered (Intake env body) = (\<not> pending_check_fails env)"
| "pending_check_answered (Lookup fails e) = True"
| "pending_check_answered (Approve env requestId) = True"

fun unique_checks_answered :: "call \<Rightarrow> bool" where
  "unique_checks_answered (Intake env body) = True"
| "unique_checks_answered (Lookup fails e) = True"
| "unique_checks_answered (Approve env requestId) =
     list_all (\<lambda>k. \<not> unique_check_fails env k) [0..<maxAttempts]"

text \<open>
  The example of the specification: Jane Doe's submission (and the same
  submission with white space around the name, the phone and the
  profession, and a blank note), served by a store that answers every call,
  and its approval on a host that keeps UTC.
  The second zone is that of New York around the start of daylight saving
  time on 8 March 2026, 07:00 UTC: five hours behind UTC before, four after.
\<close>

definition empty_store :: store where
  "empty_store = \<lparr> founders_requests = [], founders_invite_codes = [], outbox = [] \<rparr>"

definition jane_body :: request_body where
  "jane_body = \<lparr> fullName = Str ''Jane Doe'', email = Str ''JANE@X.COM'',
                 phone = Str ''+1 555'', profession = Str ''Designer'',
                 noteField = Undefined \<rparr>"

definition padded_body :: request_body where
  "padded_body = \<lparr> fullName = Str (CHR 0xA0 # '' Jane Doe  ''), email = Str ''JANE@X.COM'',
                   phone = Str '' +1 555'', profession = Str (''Designer'' @ [CHR 0x0A]),
                   noteField = Str ''  '' \<rparr>"

definition intake_env :: request_env where
  "intake_env = \<lparr> pending_check_fails = False, approved_check_fails = False,
                  insert_fails = False, new_id = ''req-1'', inserted_at = 1772884700000 \<rparr>"

definition jane_row :: founders_request where
  "jane_row = \<lparr> r_id = ''req-1'', r_full_name = ''Jane Doe'', r_email = ''jane@x.com'',
                r_phone = ''+1 555'', r_profession = ''Designer'', r_note = None,
                r_status = ''pending'', r_created_at = 1772884700000 \<rparr>"

definition jane_store :: store where
  "jane_store = \<lparr> founders_requests = [jane_row], founders_invite_codes = [], outbox = [] \<rparr>"

definition utc_zone :: host_zone where
  "utc_zone = \<lparr> offset_at_utc = (\<lambda>t. 0), offset_at_local = (\<lambda>t. 0) \<rparr>"

definition new_york_zone :: host_zone where
  "new_york_zone =
     \<lparr> offset_at_utc = (\<lambda>t. if t < 1772953200000 then - 5 * msPerHour else - 4 * msPerHour),
       offset_at_local = (\<lambda>t. if t < 1772953200000 - 4 * msPerHour
                                then - 5 * msPerHour else - 4 * msPerHour) \<rparr>"

definition approval_env :: approve_env where
  "approval_env = \<lparr> fetch_fails = False, unique_check_fails = (\<lambda>k. False),
                   math_random = (\<lambda>k. 0), date_now = 1772884800000, zone = utc_zone,
                   code_insert_fails = False, new_code_id = ''code-1'',
                   status_update_fails = False, mail_result = Email_sent \<rparr>"

text \<open>
  A store in which the code \<open>FC-AAAAAAAA\<close>, the one the generator makes from
  draws that are all \<open>0\<close>, is already issued to an earlier request.
\<close>

definition taken_store :: store where
  "taken_store =
     \<lparr> founders_requests = [jane_row],
       founders_invite_codes =
         [\<lparr> c_id = ''code-0'', c_code = ''FC-AAAAAAAA'', c_email = ''joe@y.org'',
            c_phone = ''+1 777'', c_request_id = ''req-0'', c_expires_at = 1772000000000 \<rparr>],
       outbox = [] \<rparr>"

section \<open>Strings\<close>

lemma toLowerChar_cases:
  "toLowerChar c = c \<or> toLowerChar c \<in> set lower_letters"
proof (cases "map_of (zip upper_letters lower_letters) c")
  case None
  then show ?thesis by (simp add: toLowerChar_def)
next
  case (Some d)
  then have "(c, d) \<in> set (zip upper_letters lower_letters)"
    by (rule map_of_SomeD)
  then have "d \<in> set lower_letters"
    by (rule set_zip_rightD)
  with Some show ?thesis by (simp add: toLowerChar_def)
qed

lemma lower_letters_not_space: "d \<in> set lower_letters \<Longrightarrow> \<not> is_space d"
  by (auto simp: lower_letters_def is_space_def)

lemma is_space_toLowerChar: "\<not> is_space c \<Longrightarrow> \<not> is_space (toLowerChar c)"
  using toLowerChar_cases [of c] lower_letters_not_space [of "toLowerChar c"] by auto

lemma lower_letters_all_fixed: "list_all (\<lambda>d. toLowerChar d = d) lower_letters"
  by code_simp

lemma lower_letters_fixed: "d \<in> set lower_letters \<Longrightarrow> toLowerChar d = d"
  using lower_letters_all_fixed by (simp add: list_all_iff)

lemma toLowerChar_idem: "toLowerChar (toLowerChar c) = toLowerChar c"
  using toLowerChar_cases [of c] lower_letters_fixed [of "toLowerChar c"] by auto

lemma toLowerCase_idem: "toLowerCase (toLowerCase s) = toLowerCase s"
  by (simp add: toLowerCase_def toLowerChar_idem)

lemma dropWhile_none: "\<forall>c \<in> set xs. \<not> P c \<Longrightarrow> dropWhile P xs = xs"
  by (cases xs) auto

lemma trim_no_space:
  assumes "\<forall>c \<in> set s. \<not> is_space c"
  shows "trim s = s"
proof -
  have a: "dropWhile is_space s = s"
    using assms by (rule dropWhile_none)
  have "\<forall>c \<in> set (rev s). \<not> is_space c"
    using assms by simp
  then have "dropWhile is_space (rev s) = rev s"
    by (rule dropWhile_none)
  with a show ?thesis by (simp add: trim_def)
qed

lemma trim_blank: "list_all is_space w \<Longrightarrow> trim w = []"
  by (auto simp: trim_def list_all_iff dest: set_dropWhileD)

lemma emailRegex_no_space:
  assumes "emailRegex_test s"
  shows "\<forall>c \<in> set s. \<not> is_space c"
proof -
  obtain c d where dw: "dropWhile email_class s = c # d" and c: "c = CHR ''@''"
    and d: "list_all email_class d"
    using assms by (auto simp: emailRegex_test_def split: list.splits)
  have "takeWhile email_class s @ dropWhile email_class s = s"
    by (rule takeWhile_dropWhile_id)
  then have s: "s = takeWhile email_class s @ c # d"
    using dw by simp
  have t: "\<forall>x \<in> set (takeWhile email_class s). \<not> is_space x"
    using set_takeWhileD [of _ email_class s] by (auto simp: email_class_def)
  have cc: "\<not> is_space c" using c by (simp add: is_space_def)
  have dd: "\<forall>x \<in> set d. \<not> is_space x"
    using d by (simp add: list_all_iff email_class_def)
  have "\<forall>x \<in> set (takeWhile email_class s @ c # d). \<not> is_space x"
    using t cc dd by auto
  with s show ?thesis by simp
qed

lemma emailRegex_nonempty: "emailRegex_test s \<Longrightarrow> s \<noteq> []"
  by (auto simp: emailRegex_test_def)

lemma trim_toLowerCase_email:
  assumes "emailRegex_test e"
  shows "trim (toLowerCase e) = toLowerCase e"
proof (rule trim_no_space)
  show "\<forall>c \<in> set (toLowerCase e). \<not> is_space c"
    using emailRegex_no_space [OF assms] by (auto simp: toLowerCase_def is_space_toLowerChar)
qed

text \<open>
  \<open>trim\<close> and \<open>toLowerCase\<close> compute exactly the stripped and the lower-cased
  string.
\<close>

lemma stripped_trim: "stripped s (trim s)"
proof -
  let ?rest = "dropWhile is_space s"
  let ?tw = "takeWhile is_space (rev ?rest)"
  let ?dw = "dropWhile is_space (rev ?rest)"
  have t: "trim s = rev ?dw" by (simp add: trim_def)
  have rest: "?rest = rev ?dw @ rev ?tw"
    by (metis rev_append rev_rev_ident takeWhile_dropWhile_id)
  have "s = takeWhile is_space s @ ?rest" by simp
  with rest have s: "s = takeWhile is_space s @ rev ?dw @ rev ?tw" by simp
  have a: "list_all is_space (takeWhile is_space s)"
    by (auto simp: list_all_iff dest: set_takeWhileD)
  have b: "list_all is_space (rev ?tw)"
    by (auto simp: list_all_iff dest: set_takeWhileD)
  have ends: "\<not> is_space (hd (rev ?dw)) \<and> \<not> is_space (last (rev ?dw))" if ne: "rev ?dw \<noteq> []"
  proof -
    from ne have dne: "?dw \<noteq> []" by simp
    then have l: "\<not> is_space (hd ?dw)" by (rule hd_dropWhile)
    have "last ?dw = last (rev ?rest)"
      using dne by (metis last_appendR takeWhile_dropWhile_id)
    moreover have rne: "?rest \<noteq> []"
      using dne by (metis dropWhile.simps(1) rev.simps(1))
    ultimately have "last ?dw = hd ?rest" by (simp add: last_rev)
    moreover have "\<not> is_space (hd ?rest)" using rne by (rule hd_dropWhile)
    ultimately have h: "\<not> is_space (last ?dw)" by simp
    from dne l h show ?thesis by (simp add: hd_rev last_rev)
  qed
  show ?thesis
    unfolding stripped_def t
    using s a b ends by blast
qed

lemma dropWhile_head: "xs \<noteq> [] \<Longrightarrow> \<not> P (hd xs) \<Longrightarrow> dropWhile P (xs @ ys) = xs @ ys"
  by (cases xs) auto

lemma stripped_unique:
  assumes "stripped s t"
  shows "t = trim s"
proof -
  from assms obtain a b where s: "s = a @ t @ b" and a: "list_all is_space a"
    and b: "list_all is_space b"
    and t: "t = [] \<or> (\<not> is_space (hd t) \<and> \<not> is_space (last t))"
    unfolding stripped_def by blast
  show ?thesis
  proof (cases "t = []")
    case True
    with s a b have "list_all is_space s" by simp
    then have "trim s = []" by (rule trim_blank)
    with True show ?thesis by simp
  next
    case False
    with t have h: "\<not> is_space (hd t)" and l: "\<not> is_space (last t)" by simp_all
    have "dropWhile is_space s = dropWhile is_space (t @ b)"
      unfolding s using a by (simp add: list_all_iff dropWhile_append2)
    also have "\<dots> = t @ b" using False h by (rule dropWhile_head)
    finally have d: "dropWhile is_space s = t @ b" .
    have "dropWhile is_space (rev (t @ b)) = dropWhile is_space (rev b @ rev t)" by simp
    also have "\<dots> = dropWhile is_space (rev t)"
      using dropWhile_append2 [of "rev b" is_space "rev t"] b by (simp add: list_all_iff)
    also have "\<dots> = rev t"
      using dropWhile_head [of "rev t" is_space "[]"] False l by (simp add: hd_rev)
    finally show ?thesis by (simp add: trim_def d)
  qed
qed

lemma upper_lower_length: "length upper_letters = length lower_letters"
  by (simp add: upper_letters_def lower_letters_def)

lemma toLowerChar_spec:
  "(c, toLowerChar c) \<in> set (zip upper_letters lower_letters) \<or>
   (c \<notin> set upper_letters \<and> toLowerChar c = c)"
proof (cases "map_of (zip upper_letters lower_letters) c")
  case None
  then have "c \<notin> fst ` set (zip upper_letters lower_letters)"
    by (simp add: map_of_eq_None_iff)
  then have "c \<notin> set (map fst (zip upper_letters lower_letters))" by simp
  moreover have "map fst (zip upper_letters lower_letters) = upper_letters"
    using upper_lower_length by (rule map_fst_zip)
  ultimately have "c \<notin> set upper_letters" by simp
  with None show ?thesis by (simp add: toLowerChar_def)
next
  case (Some d)
  then have "(c, d) \<in> set (zip upper_letters lower_letters)" by (rule map_of_SomeD)
  with Some show ?thesis by (simp add: toLowerChar_def)
qed

lemma lower_cased_toLowerCase: "lower_cased s (toLowerCase s)"
  unfolding lower_cased_def toLowerCase_def
  by (induction s) (simp_all add: toLowerChar_spec)

lemma upper_letters_distinct: "distinct upper_letters"
  by code_simp

lemma lower_cased_unique:
  assumes "lower_cased s t"
  shows "t = toLowerCase s"
  using assms unfolding lower_cased_def toLowerCase_def
proof (induction s t rule: list_all2_induct)
  case Nil
  then show ?case by simp
next
  case (Cons c s d t)
  have "d = toLowerChar c"
  proof (cases "c \<in> set upper_letters")
    case False
    with Cons.hyps(1) have "d = c"
      by (auto dest: set_zip_leftD)
    moreover have "toLowerChar c = c"
      using toLowerChar_spec [of c] False by (auto dest: set_zip_leftD)
    ultimately show ?thesis by simp
  next
    case True
    with Cons.hyps(1) have z: "(c, d) \<in> set (zip upper_letters lower_letters)" by simp
    have "map fst (zip upper_letters lower_letters) = upper_letters"
      using upper_lower_length by (rule map_fst_zip)
    then have "distinct (map fst (zip upper_letters lower_letters))"
      using upper_letters_distinct by simp
    then have "map_of (zip upper_letters lower_letters) c = Some d"
      using z by (rule map_of_is_SomeI)
    then show ?thesis by (simp add: toLowerChar_def)
  qed
  with Cons.IH show ?case by simp
qed

text \<open>
  The characters beyond ASCII: the no-break space is white space for the
  pattern and for \<open>trim\<close>, and \<open>toLowerCase\<close> maps U+00C9 to U+00E9.
\<close>

lemma emailRegex_rejects_no_break_space:
  "\<not> emailRegex_test (''jane'' @ [CHR 0xA0] @ ''doe@x.com'')"
  by (simp add: emailRegex_test_def email_class_def is_space_def)

lemma trim_no_break_space:
  "trim ([CHR 0xA0] @ '' Jane Doe'' @ [CHR 0xA0, CHR 0x09]) = ''Jane Doe'' \<and>
   trim [CHR 0xA0, CHR 0xA0] = []"
  by (simp add: trim_def is_space_def)

lemma toLowerCase_latin_capital:
  "toLowerCase (''JOS'' @ [CHR 0xC9] @ ''@X.COM'') = ''jos'' @ [CHR 0xE9] @ ''@x.com''"
  by (simp add: toLowerCase_def toLowerChar_def upper_letters_def lower_letters_def)

text \<open>
  The test accepts exactly the strings the pattern describes: a non-empty
  run of class characters, \<open>@\<close>, a second run, a dot, a third run.
\<close>

lemma email_class_dot: "email_class (CHR ''.'')"
  by (simp add: email_class_def is_space_def)

lemma email_class_at: "\<not> email_class (CHR ''@'')"
  by (simp add: email_class_def)

lemma emailRegex_test_language:
  "emailRegex_test s \<longleftrightarrow>
     (\<exists>a b c. s = a @ ''@'' @ b @ ''.'' @ c \<and> a \<noteq> [] \<and> b \<noteq> [] \<and> c \<noteq> [] \<and>
              list_all email_class a \<and> list_all email_class b \<and> list_all email_class c)"
proof
  assume t: "emailRegex_test s"
  then obtain x d where dw: "dropWhile email_class s = x # d" and x: "x = CHR ''@''"
    and d: "list_all email_class d" and dot: "CHR ''.'' \<in> set (butlast (tl d))"
    and a: "takeWhile email_class s \<noteq> []"
    by (auto simp: emailRegex_test_def split: list.splits)
  from dot obtain u v where uv: "butlast (tl d) = u @ CHR ''.'' # v"
    by (meson split_list)
  then have "butlast (tl d) \<noteq> []" by simp
  then have tl: "tl d \<noteq> []" by auto
  then have dne: "d \<noteq> []" by auto
  have "tl d = butlast (tl d) @ [last (tl d)]" using tl by simp
  with uv have tld: "tl d = u @ CHR ''.'' # (v @ [last (tl d)])" by simp
  have "d = hd d # tl d" using dne by simp
  with tld have dd: "d = (hd d # u) @ ''.'' @ (v @ [last (tl d)])" by simp
  have "s = takeWhile email_class s @ dropWhile email_class s" by simp
  with dw x dd have s: "s = takeWhile email_class s @ ''@'' @ (hd d # u) @ ''.'' @ (v @ [last (tl d)])"
    by simp
  have la: "list_all email_class (takeWhile email_class s)"
    by (auto simp: list_all_iff dest: set_takeWhileD)
  have "list_all email_class ((hd d # u) @ ''.'' @ (v @ [last (tl d)]))"
    using d dd by simp
  then have lb: "list_all email_class (hd d # u)" and lc: "list_all email_class (v @ [last (tl d)])"
    by simp_all
  from s a la lb lc show "\<exists>a b c. s = a @ ''@'' @ b @ ''.'' @ c \<and> a \<noteq> [] \<and> b \<noteq> [] \<and> c \<noteq> [] \<and>
              list_all email_class a \<and> list_all email_class b \<and> list_all email_class c"
    by blast
next
  assume "\<exists>a b c. s = a @ ''@'' @ b @ ''.'' @ c \<and> a \<noteq> [] \<and> b \<noteq> [] \<and> c \<noteq> [] \<and>
              list_all email_class a \<and> list_all email_class b \<and> list_all email_class c"
  then obtain a b c where s: "s = a @ CHR ''@'' # (b @ CHR ''.'' # c)"
    and ne: "a \<noteq> []" "b \<noteq> []" "c \<noteq> []"
    and cl: "list_all email_class a" "list_all email_class b" "list_all email_class c"
    by auto
  have ta: "takeWhile email_class a = a" and da: "dropWhile email_class a = []"
    using cl(1) by (simp_all add: list_all_iff)
  have tw: "takeWhile email_class s = a"
    unfolding s using email_class_at ta by (simp add: takeWhile_tail)
  have dw: "dropWhile email_class s = CHR ''@'' # (b @ CHR ''.'' # c)"
    unfolding s using email_class_at da by (simp add: dropWhile_append3)
  have all: "list_all email_class (b @ CHR ''.'' # c)"
    using cl email_class_dot by simp
  obtain b0 bs where b: "b = b0 # bs" using ne(2) by (cases b) auto
  have "butlast (tl (b @ CHR ''.'' # c)) = bs @ CHR ''.'' # butlast c"
    using b ne(3) by (simp add: butlast_append)
  then have dot: "CHR ''.'' \<in> set (butlast (tl (b @ CHR ''.'' # c)))" by simp
  show "emailRegex_test s"
    using tw dw all dot ne(1) by (simp add: emailRegex_test_def)
qed

section \<open>Request intake\<close>

lemma js_trim_Inr: "js_trim v = Inr t \<Longrightarrow> \<exists>s. v = Str s \<and> t = trim s"
  by (cases v) auto

lemma js_toLowerCase_Inr: "js_toLowerCase v = Inr t \<Longrightarrow> \<exists>s. v = Str s \<and> t = toLowerCase s"
  by (cases v) auto

lemma insert_payload_Inr:
  assumes "insert_payload env body = Inr row"
  shows "\<exists>f e p pr nt. fullName body = Str f \<and> email body = Str e \<and> phone body = Str p \<and>
           profession body = Str pr \<and> note_value (noteField body) = Inr nt \<and>
           row = \<lparr> r_id = new_id env, r_full_name = trim f, r_email = trim (toLowerCase e),
                   r_phone = trim p, r_profession = trim pr, r_note = nt,
                   r_status = ''pending'', r_created_at = inserted_at env \<rparr>"
  using assms
  by (auto simp: insert_payload_def split: sum.splits dest!: js_trim_Inr js_toLowerCase_Inr)

lemma POST_request_try_ok:
  assumes "POST_request_try env db body = Inr (Intake_ok i, db')"
  shows "\<exists>row. insert_payload env body = Inr row \<and> i = r_id row \<and> \<not> insert_fails env \<and>
           db' = db\<lparr>founders_requests := founders_requests db @ [row]\<rparr> \<and>
           truthy (fullName body) \<and> truthy (email body) \<and> truthy (phone body) \<and>
           truthy (profession body) \<and> emailRegex_test (ToString (email body)) \<and>
           (\<exists>lower. js_toLowerCase (email body) = Inr lower \<and>
              fst (single (pending_check_fails env)
                     (matching lower ''pending'' (founders_requests db))) = None \<and>
              fst (single (approved_check_fails env)
                     (matching lower ''approved'' (founders_requests db))) = None)"
  using assms
  by (simp add: POST_request_try_def split: if_splits sum.splits option.splits)

lemma POST_request_ok:
  assumes "POST_request env db body = (Intake_ok i, db')"
  shows "\<exists>f e p pr nt. fullName body = Str f \<and> email body = Str e \<and> phone body = Str p \<and>
           profession body = Str pr \<and> note_value (noteField body) = Inr nt \<and>
           f \<noteq> [] \<and> p \<noteq> [] \<and> pr \<noteq> [] \<and> emailRegex_test e \<and> \<not> insert_fails env \<and>
           fst (single (pending_check_fails env)
                  (matching (toLowerCase e) ''pending'' (founders_requests db))) = None \<and>
           fst (single (approved_check_fails env)
                  (matching (toLowerCase e) ''approved'' (founders_requests db))) = None \<and>
           i = new_id env \<and>
           db' = db\<lparr>founders_requests := founders_requests db @
                   [\<lparr> r_id = new_id env, r_full_name = trim f, r_email = toLowerCase e,
                      r_phone = trim p, r_profession = trim pr, r_note = nt,
                      r_status = ''pending'', r_created_at = inserted_at env \<rparr>]\<rparr>"
proof -
  from assms have "POST_request_try env db body = Inr (Intake_ok i, db')"
    by (simp add: POST_request_def split: sum.splits)
  from POST_request_try_ok [OF this] obtain row lower where
    row: "insert_payload env body = Inr row" and i: "i = r_id row" and nf: "\<not> insert_fails env"
    and db': "db' = db\<lparr>founders_requests := founders_requests db @ [row]\<rparr>"
    and tr: "truthy (fullName body)" "truthy (phone body)" "truthy (profession body)"
    and re: "emailRegex_test (ToString (email body))"
    and lower: "js_toLowerCase (email body) = Inr lower"
    and chk: "fst (single (pending_check_fails env)
                     (matching lower ''pending'' (founders_requests db))) = None"
             "fst (single (approved_check_fails env)
                     (matching lower ''approved'' (founders_requests db))) = None"
    by blast
  from insert_payload_Inr [OF row] obtain f e p pr nt where
    b: "fullName body = Str f" "email body = Str e" "phone body = Str p" "profession body = Str pr"
       "note_value (noteField body) = Inr nt"
    and r: "row = \<lparr> r_id = new_id env, r_full_name = trim f, r_email = trim (toLowerCase e),
                   r_phone = trim p, r_profession = trim pr, r_note = nt,
                   r_status = ''pending'', r_created_at = inserted_at env \<rparr>"
    by blast
  have e: "emailRegex_test e" using re b by simp
  have l: "lower = toLowerCase e" using lower b by simp
  show ?thesis
    using b r e l i nf db' tr chk by (simp add: trim_toLowerCase_email)
qed

lemma POST_request_error_unchanged:
  assumes "POST_request env db body = (Intake_error n m, db')"
  shows "db' = db"
  using assms
  by (auto simp: POST_request_def POST_request_try_def split: sum.splits if_splits option.splits)

lemma no_rows_for_email:
  assumes "status_domain db" "\<not> duplicate db e"
  shows "filter (\<lambda>r. r_email r = toLowerCase e) (founders_requests db) = []"
  using assms
  by (auto simp: status_domain_def duplicate_def list_all_iff list_ex_iff filter_empty_conv)

lemma single_Nil: "fst (single b []) = None"
  by (simp add: single_def)

text \<open>
  Claim C2. Take a submission whose fields are strings, the required ones
  non-empty and the email matching the pattern, with the note absent, null
  or a string, and a table in which no pending or approved request is on
  file for the lower-cased email. When the store carries out the insert,
  intake answers success with the identifier the store gave the new row.
  The row holds the trimmed name, phone and profession, the lower-cased
  email (trimming changes nothing in an email that matched the pattern), the
  trimmed note or null, and the status \<open>pending\<close>. In a table whose rows all
  have one of the two statuses of the data model, a status lookup for that
  email that the store answers then reports a request with status
  \<open>pending\<close>. Trimmed and lower-cased are meant as the words say: what
  \<open>trim\<close> returns is the field stripped of the white space around it, and
  what \<open>toLowerCase\<close> returns is the email with its capital letters replaced
  by small ones.
\<close>

theorem intake_valid_submission:
  assumes body: "fullName body = Str f" "email body = Str e" "phone body = Str p"
                "profession body = Str pr"
    and nt: "noteField body = Undefined \<or> noteField body = Null \<or> noteField body = Str n"
    and ne: "f \<noteq> []" "p \<noteq> []" "pr \<noteq> []"
    and re: "emailRegex_test e"
    and nd: "\<not> duplicate db e"
    and ins: "\<not> insert_fails env"
  shows "POST_request env db body =
           (Intake_ok (new_id env),
            db\<lparr>founders_requests := founders_requests db @
              [\<lparr> r_id = new_id env, r_full_name = trim f, r_email = toLowerCase e,
                 r_phone = trim p, r_profession = trim pr,
                 r_note = (if noteField body = Str n \<and> trim n \<noteq> [] then Some (trim n) else None),
                 r_status = ''pending'', r_created_at = inserted_at env \<rparr>]\<rparr>) \<and>
         (status_domain db \<longrightarrow>
            GET_request False (snd (POST_request env db body)) (Some e) =
              Status_found ''pending'' (inserted_at env)) \<and>
         stripped f (trim f) \<and> stripped p (trim p) \<and> stripped pr (trim pr) \<and>
         stripped n (trim n) \<and> lower_cased e (toLowerCase e)"
proof -
  let ?row = "\<lparr> r_id = new_id env, r_full_name = trim f, r_email = toLowerCase e,
                 r_phone = trim p, r_profession = trim pr,
                 r_note = (if noteField body = Str n \<and> trim n \<noteq> [] then Some (trim n) else None),
                 r_status = ''pending'', r_created_at = inserted_at env \<rparr>"
  have m: "matching (toLowerCase e) ''pending'' (founders_requests db) = []"
          "matching (toLowerCase e) ''approved'' (founders_requests db) = []"
    using nd by (auto simp: duplicate_def matching_def list_ex_iff filter_empty_conv)
  have e: "e \<noteq> []" using re by (rule emailRegex_nonempty)
  have nv: "note_value (noteField body) =
              Inr (if noteField body = Str n \<and> trim n \<noteq> [] then Some (trim n) else None)"
    using nt by auto
  have pay: "insert_payload env body = Inr ?row"
    using body nv re by (simp add: insert_payload_def trim_toLowerCase_email)
  have post: "POST_request env db body =
           (Intake_ok (new_id env), db\<lparr>founders_requests := founders_requests db @ [?row]\<rparr>)"
    using body ne e re ins pay
    by (simp add: POST_request_def POST_request_try_def m single_Nil)
  have "GET_request False (db\<lparr>founders_requests := founders_requests db @ [?row]\<rparr>) (Some e) =
           Status_found ''pending'' (inserted_at env)" if dom: "status_domain db"
  proof -
    have none: "filter (\<lambda>r. r_email r = toLowerCase e) (founders_requests db) = []"
      using dom nd by (rule no_rows_for_email)
    then have "filter (\<lambda>r. r_email r = toLowerCase e) (founders_requests db @ [?row]) = [?row]"
      by simp
    then show ?thesis using e by (simp add: GET_request_def)
  qed
  with post show ?thesis by (simp add: stripped_trim lower_cased_toLowerCase)
qed

lemma required_check_fails:
  assumes "\<not> truthy (fullName body) \<or> \<not> truthy (email body) \<or>
           \<not> truthy (phone body) \<or> \<not> truthy (profession body)"
  shows "POST_request env db body = (required_error, db)"
  using assms by (auto simp: POST_request_def POST_request_try_def required_error_def)

lemma required_check_passes:
  assumes "truthy (fullName body)" "truthy (email body)" "truthy (phone body)" "truthy (profession body)"
  shows "fst (POST_request env db body) \<noteq> required_error"
  using assms
  by (auto simp: POST_request_def POST_request_try_def required_error_def
           split: sum.splits option.splits)

lemma POST_request_ok_rows:
  assumes "POST_request env db body = (Intake_ok i, db')"
  shows "\<exists>row. founders_requests db' = founders_requests db @ [row] \<and>
           Inr (r_full_name row) = js_trim (fullName body) \<and>
           Inr (r_phone row) = js_trim (phone body) \<and>
           Inr (r_profession row) = js_trim (profession body)"
  using POST_request_ok [OF assms] by auto

text \<open>
  Claim C10. For each of \<open>fullName\<close>, \<open>phone\<close> and \<open>profession\<close>: the empty
  string gets the same answer as an absent field, the required-fields error,
  and the store is untouched. A blank value (non-empty, white space only)
  does not get that answer when the other required fields are present; and
  whenever a submission with a blank value succeeds, the inserted row holds
  the empty string in that column.
\<close>

theorem required_field_empty_or_blank:
  assumes w: "blank w"
  shows
   "POST_request env db (body\<lparr>fullName := Str []\<rparr>) = (required_error, db) \<and>
    POST_request env db (body\<lparr>fullName := Undefined\<rparr>) = (required_error, db) \<and>
    POST_request env db (body\<lparr>phone := Str []\<rparr>) = (required_error, db) \<and>
    POST_request env db (body\<lparr>phone := Undefined\<rparr>) = (required_error, db) \<and>
    POST_request env db (body\<lparr>profession := Str []\<rparr>) = (required_error, db) \<and>
    POST_request env db (body\<lparr>profession := Undefined\<rparr>) = (required_error, db) \<and>
    (truthy (email body) \<and> truthy (phone body) \<and> truthy (profession body) \<longrightarrow>
       fst (POST_request env db (body\<lparr>fullName := Str w\<rparr>)) \<noteq> required_error) \<and>
    (truthy (fullName body) \<and> truthy (email body) \<and> truthy (profession body) \<longrightarrow>
       fst (POST_request env db (body\<lparr>phone := Str w\<rparr>)) \<noteq> required_error) \<and>
    (truthy (fullName body) \<and> truthy (email body) \<and> truthy (phone body) \<longrightarrow>
       fst (POST_request env db (body\<lparr>profession := Str w\<rparr>)) \<noteq> required_error) \<and>
    (\<forall>i db'. POST_request env db (body\<lparr>fullName := Str w\<rparr>) = (Intake_ok i, db') \<longrightarrow>
       (\<exists>row. founders_requests db' = founders_requests db @ [row] \<and> r_full_name row = [])) \<and>
    (\<forall>i db'. POST_request env db (body\<lparr>phone := Str w\<rparr>) = (Intake_ok i, db') \<longrightarrow>
       (\<exists>row. founders_requests db' = founders_requests db @ [row] \<and> r_phone row = [])) \<and>
    (\<forall>i db'. POST_request env db (body\<lparr>profession := Str w\<rparr>) = (Intake_ok i, db') \<longrightarrow>
       (\<exists>row. founders_requests db' = founders_requests db @ [row] \<and> r_profession row = []))"
proof -
  have t: "truthy (Str w)" and tr: "trim w = []"
    using w by (simp_all add: blank_def trim_blank)
  have a1: "POST_request env db (body\<lparr>fullName := Str []\<rparr>) = (required_error, db)"
    by (rule required_check_fails) simp
  have a2: "POST_request env db (body\<lparr>fullName := Undefined\<rparr>) = (required_error, db)"
    by (rule required_check_fails) simp
  have a3: "POST_request env db (body\<lparr>phone := Str []\<rparr>) = (required_error, db)"
    by (rule required_check_fails) simp
  have a4: "POST_request env db (body\<lparr>phone := Undefined\<rparr>) = (required_error, db)"
    by (rule required_check_fails) simp
  have a5: "POST_request env db (body\<lparr>profession := Str []\<rparr>) = (required_error, db)"
    by (rule required_check_fails) simp
  have a6: "POST_request env db (body\<lparr>profession := Undefined\<rparr>) = (required_error, db)"
    by (rule required_check_fails) simp
  have b1: "truthy (email body) \<and> truthy (phone body) \<and> truthy (profession body) \<longrightarrow>
       fst (POST_request env db (body\<lparr>fullName := Str w\<rparr>)) \<noteq> required_error"
    using t required_check_passes [of "body\<lparr>fullName := Str w\<rparr>" env db] by simp
  have b2: "truthy (fullName body) \<and> truthy (email body) \<and> truthy (profession body) \<longrightarrow>
       fst (POST_request env db (body\<lparr>phone := Str w\<rparr>)) \<noteq> required_error"
    using t required_check_passes [of "body\<lparr>phone := Str w\<rparr>" env db] by simp
  have b3: "truthy (fullName body) \<and> truthy (email body) \<and> truthy (phone body) \<longrightarrow>
       fst (POST_request env db (body\<lparr>profession := Str w\<rparr>)) \<noteq> required_error"
    using t required_check_passes [of "body\<lparr>profession := Str w\<rparr>" env db] by simp
  have c1: "\<forall>i db'. POST_request env db (body\<lparr>fullName := Str w\<rparr>) = (Intake_ok i, db') \<longrightarrow>
       (\<exists>row. founders_requests db' = founders_requests db @ [row] \<and> r_full_name row = [])"
    using tr by (auto dest!: POST_request_ok_rows)
  have c2: "\<forall>i db'. POST_request env db (body\<lparr>phone := Str w\<rparr>) = (Intake_ok i, db') \<longrightarrow>
       (\<exists>row. founders_requests db' = founders_requests db @ [row] \<and> r_phone row = [])"
    using tr by (auto dest!: POST_request_ok_rows)
  have c3: "\<forall>i db'. POST_request env db (body\<lparr>profession := Str w\<rparr>) = (Intake_ok i, db') \<longrightarrow>
       (\<exists>row. founders_requests db' = founders_requests db @ [row] \<and> r_profession row = [])"
    using tr by (auto dest!: POST_request_ok_rows)
  show ?thesis
    using a1 a2 a3 a4 a5 a6 b1 b2 b3 c1 c2 c3 by blast
qed

section \<open>The generator\<close>

lemma charAt_draw:
  fixes r :: rat
  assumes "0 \<le> r" "r < 1"
  shows "\<exists>x \<in> set chars. charAt chars \<lfloor>r * of_nat (length chars)\<rfloor> = [x]"
proof -
  have l: "length chars = 32" by (simp add: chars_def)
  have "0 \<le> r * 32" using assms by simp
  then have lo: "0 \<le> \<lfloor>r * 32\<rfloor>" by simp
  have "r * 32 < 32" using assms by simp
  then have hi: "\<lfloor>r * 32\<rfloor> < 32" by (simp add: floor_less_iff)
  have "nat \<lfloor>r * 32\<rfloor> < length chars" using lo hi l by linarith
  then have "chars ! nat \<lfloor>r * 32\<rfloor> \<in> set chars" by (rule nth_mem)
  moreover have "charAt chars \<lfloor>r * of_nat (length chars)\<rfloor> = [chars ! nat \<lfloor>r * 32\<rfloor>]"
    unfolding charAt_def l using lo hi by (simp only: of_nat_numeral) simp
  ultimately show ?thesis by blast
qed

lemma gen_loop_shape:
  assumes "\<forall>k. 0 \<le> rnd k \<and> rnd k < 1" "i \<le> 8"
  shows "\<exists>body. gen_loop rnd pos i code = code @ body \<and> length body = 8 - i \<and> set body \<subseteq> set chars"
  using assms
proof (induction rnd pos i code rule: gen_loop.induct)
  case (1 rnd pos i code)
  show ?case
  proof (cases "i < 8")
    case False
    with "1.prems" show ?thesis by simp
  next
    case True
    from "1.prems" have "0 \<le> rnd (pos + i)" "rnd (pos + i) < 1" by auto
    from charAt_draw [OF this] obtain x where
      x: "x \<in> set chars" "charAt chars \<lfloor>rnd (pos + i) * of_nat (length chars)\<rfloor> = [x]" by blast
    from True have "i + 1 \<le> 8" by simp
    from "1.IH" [OF True "1.prems"(1) this] obtain body where
      b: "gen_loop rnd pos (i + 1) (code @ charAt chars \<lfloor>rnd (pos + i) * of_nat (length chars)\<rfloor>)
            = (code @ charAt chars \<lfloor>rnd (pos + i) * of_nat (length chars)\<rfloor>) @ body"
         "length body = 8 - (i + 1)" "set body \<subseteq> set chars" by blast
    have "gen_loop rnd pos i code = code @ (x # body)"
      using True b(1) x(2) by (subst gen_loop.simps) simp
    moreover have "length (x # body) = 8 - i" using b(2) True by simp
    moreover have "set (x # body) \<subseteq> set chars" using b(3) x(1) by simp
    ultimately show ?thesis by blast
  qed
qed

lemma generateInviteCode_format:
  assumes "\<forall>k. 0 \<le> rnd k \<and> rnd k < 1"
  shows "code_format (generateInviteCode rnd pos)"
proof -
  from gen_loop_shape [OF assms, of 0 pos "[]"] obtain body where
    b: "gen_loop rnd pos 0 [] = body" "length body = 8" "set body \<subseteq> set chars" by auto
  have "set chars = set ''ABCDEFGHJKLMNPQRSTUVWXYZ23456789''" by (simp add: chars_def)
  with b show ?thesis
    by (simp add: code_format_def generateInviteCode_def list_all_iff subset_iff)
qed

section \<open>The uniqueness loop\<close>

lemma unique_loop_spec:
  assumes "unique_loop env codes (candidate env a) a = (code, n)" "a \<le> maxAttempts"
  shows "a \<le> n \<and> n \<le> maxAttempts \<and>
         (\<forall>k. a \<le> k \<and> k < n \<longrightarrow> select_code env codes (candidate env k) k \<noteq> None) \<and>
         (n < maxAttempts \<longrightarrow> code = candidate env n \<and> select_code env codes code n = None)"
  using assms
proof (induction "maxAttempts - a" arbitrary: a)
  case 0
  then have "a = maxAttempts" by simp
  with "0.prems" show ?case by (auto simp: unique_loop.simps [of env codes _ maxAttempts])
next
  case (Suc m)
  then have lt: "a < maxAttempts" by simp
  show ?case
  proof (cases "select_code env codes (candidate env a) a")
    case None
    with lt Suc.prems(1) have "code = candidate env a" "n = a"
      by (auto simp: unique_loop.simps [of env codes _ a])
    with None lt show ?thesis by auto
  next
    case (Some existing)
    from Some lt Suc.prems(1) have rec: "unique_loop env codes (candidate env (a + 1)) (a + 1) = (code, n)"
      by (simp add: unique_loop.simps [of env codes _ a] candidate_def)
    have m: "m = maxAttempts - (a + 1)" using Suc.hyps(2) by simp
    have le: "a + 1 \<le> maxAttempts" using lt by simp
    from Suc.hyps(1) [OF m rec le] have ih:
      "a + 1 \<le> n" "n \<le> maxAttempts"
      "\<forall>k. a + 1 \<le> k \<and> k < n \<longrightarrow> select_code env codes (candidate env k) k \<noteq> None"
      "n < maxAttempts \<longrightarrow> code = candidate env n \<and> select_code env codes code n = None"
      by auto
    have "\<forall>k. a \<le> k \<and> k < n \<longrightarrow> select_code env codes (candidate env k) k \<noteq> None"
    proof (intro allI impI)
      fix k assume k: "a \<le> k \<and> k < n"
      show "select_code env codes (candidate env k) k \<noteq> None"
      proof (cases "k = a")
        case True
        with Some show ?thesis by simp
      next
        case False
        with k have "a + 1 \<le> k \<and> k < n" by simp
        with ih(3) show ?thesis by blast
      qed
    qed
    with ih show ?thesis by auto
  qed
qed

lemma candidate_0: "generateInviteCode (math_random env) 0 = candidate env 0"
  by (simp add: candidate_def)

lemma unique_loop_exhausted:
  assumes "unique_loop env codes (candidate env 0) 0 = (code, n)"
  shows "n \<ge> maxAttempts \<longleftrightarrow> (\<forall>k < maxAttempts. select_code env codes (candidate env k) k \<noteq> None)"
proof -
  from unique_loop_spec [OF assms] have s:
    "n \<le> maxAttempts"
    "\<forall>k. k < n \<longrightarrow> select_code env codes (candidate env k) k \<noteq> None"
    "n < maxAttempts \<longrightarrow> code = candidate env n \<and> select_code env codes code n = None"
    by auto
  show ?thesis
  proof
    assume "n \<ge> maxAttempts"
    with s(1) have "n = maxAttempts" by simp
    with s(2) show "\<forall>k < maxAttempts. select_code env codes (candidate env k) k \<noteq> None" by simp
  next
    assume a: "\<forall>k < maxAttempts. select_code env codes (candidate env k) k \<noteq> None"
    show "n \<ge> maxAttempts"
    proof (rule ccontr)
      assume "\<not> n \<ge> maxAttempts"
      then have lt: "n < maxAttempts" by simp
      with s(3) have "select_code env codes (candidate env n) n = None" by auto
      with a lt show False by blast
    qed
  qed
qed

lemma select_code_Some:
  assumes "select_code env codes c k = Some row"
  shows "row \<in> set codes \<and> c_code row = c \<and> \<not> unique_check_fails env k"
proof -
  from assms have nf: "\<not> unique_check_fails env k"
    and f: "filter (\<lambda>x. c_code x = c) codes = [row]"
    by (auto simp: select_code_def single_def split: if_splits list.splits)
  have "row \<in> set (filter (\<lambda>x. c_code x = c) codes)" using f by simp
  with nf show ?thesis by simp
qed

lemma distinct_const_length:
  assumes "distinct xs" "\<forall>y \<in> set xs. y = c"
  shows "length xs \<le> 1"
proof (cases xs)
  case Nil
  then show ?thesis by simp
next
  case (Cons x ys)
  have "ys = []"
  proof (cases ys)
    case Nil
    then show ?thesis .
  next
    case (Cons y zs)
    with \<open>xs = x # ys\<close> assms(2) have "x = c" "y = c" by auto
    with Cons \<open>xs = x # ys\<close> assms(1) show ?thesis by auto
  qed
  with Cons show ?thesis by simp
qed

lemma select_code_None_absent:
  assumes "select_code env codes c k = None" "\<not> unique_check_fails env k"
    "distinct (map c_code codes)"
  shows "c \<notin> c_code ` set codes"
proof
  assume "c \<in> c_code ` set codes"
  then have ne: "filter (\<lambda>x. c_code x = c) codes \<noteq> []"
    by (auto simp: filter_empty_conv)
  have "distinct (map c_code (filter (\<lambda>x. c_code x = c) codes))"
    using assms(3) by (rule distinct_map_filter)
  moreover have "\<forall>y \<in> set (map c_code (filter (\<lambda>x. c_code x = c) codes)). y = c"
    by auto
  ultimately have "length (map c_code (filter (\<lambda>x. c_code x = c) codes)) \<le> 1"
    by (rule distinct_const_length)
  then have "length (filter (\<lambda>x. c_code x = c) codes) \<le> 1" by simp
  with ne obtain row where "filter (\<lambda>x. c_code x = c) codes = [row]"
    by (cases "filter (\<lambda>x. c_code x = c) codes") (auto simp: Suc_le_eq)
  with assms(1,2) show False by (simp add: select_code_def single_def)
qed

section \<open>The expiry date\<close>

lemma time_fields:
  "Day t * msPerDay + (HourFromTime t * msPerHour + MinFromTime t * 60000 + SecFromTime t * 1000 + msFromTime t) = t"
proof -
  have a: "t mod 60000 = 1000 * (t div 1000 mod 60) + t mod 1000"
    using zmod_zmult2_eq [of 60 t 1000] by simp
  have b: "t mod 3600000 = 60000 * (t div 60000 mod 60) + t mod 60000"
    using zmod_zmult2_eq [of 60 t 60000] by simp
  have c: "t mod 86400000 = 3600000 * (t div 3600000 mod 24) + t mod 3600000"
    using zmod_zmult2_eq [of 24 t 3600000] by simp
  have d: "t = 86400000 * (t div 86400000) + t mod 86400000"
    by simp
  show ?thesis
    unfolding Day_def HourFromTime_def MinFromTime_def SecFromTime_def msFromTime_def
      msPerDay_def msPerHour_def
    using a b c d by linarith
qed

lemma setHours_getHours_plus:
  "setHours z t (getHours z t + h) = TimeClip (UTC z (LocalTime z t + h * msPerHour))"
proof -
  let ?lt = "LocalTime z t"
  have "MakeDate (Day ?lt) (MakeTime (HourFromTime ?lt + h) (MinFromTime ?lt) (SecFromTime ?lt) (msFromTime ?lt))
        = Day ?lt * msPerDay + (HourFromTime ?lt * msPerHour + MinFromTime ?lt * 60000 + SecFromTime ?lt * 1000 + msFromTime ?lt) + h * msPerHour"
    by (simp add: MakeDate_def MakeTime_def algebra_simps)
  also have "\<dots> = ?lt + h * msPerHour"
    by (simp only: time_fields)
  finally show ?thesis
    by (simp add: setHours_def getHours_def Let_def)
qed

section \<open>Approval\<close>

lemma unique_loop_env:
  assumes "unique_check_fails env' = unique_check_fails env" "math_random env' = math_random env"
  shows "unique_loop env' codes ic a = unique_loop env codes ic a"
proof (induction "maxAttempts - a" arbitrary: a ic)
  case 0
  then show ?case
    by (simp add: unique_loop.simps [of _ codes ic a])
next
  case (Suc m)
  have s: "select_code env' codes ic a = select_code env codes ic a"
    using assms by (simp add: select_code_def)
  have m: "m = maxAttempts - (a + 1)" using Suc.hyps(2) by simp
  show ?case
    using Suc.hyps(1) [OF m] assms(2) s
    by (simp add: unique_loop.simps [of _ codes ic a] split: option.splits)
qed

lemma select_request_env:
  "fetch_fails env' = fetch_fails env \<Longrightarrow> select_request env' db rid = select_request env db rid"
  by (simp add: select_request_def)

lemma POST_approve_okD:
  assumes "POST_approve env db rid = (Approve_ok code expiry, db')"
  shows "\<exists>fr n. truthy rid \<and> select_request env db rid = (Some fr, False) \<and>
           r_status fr = ''pending'' \<and>
           unique_loop env (founders_invite_codes db) (candidate env 0) 0 = (code, n) \<and>
           n < maxAttempts \<and>
           setHours (zone env) (date_now env) (getHours (zone env) (date_now env) + 72) = Some expiry \<and>
           \<not> code_insert_fails env \<and>
           db' = commit_approval env db rid fr code expiry"
  using assms
  by (auto simp: POST_approve_def POST_approve_try_def candidate_0
           split: sum.splits if_splits prod.splits option.splits)

lemma POST_approve_okI:
  assumes "truthy rid" "select_request env db rid = (Some fr, False)" "r_status fr = ''pending''"
    "unique_loop env (founders_invite_codes db) (candidate env 0) 0 = (code, n)" "n < maxAttempts"
    "setHours (zone env) (date_now env) (getHours (zone env) (date_now env) + 72) = Some expiry"
    "\<not> code_insert_fails env"
  shows "POST_approve env db rid = (Approve_ok code expiry, commit_approval env db rid fr code expiry)"
  using assms by (simp add: POST_approve_def POST_approve_try_def candidate_0)

lemma POST_approve_error_unchanged:
  assumes "POST_approve env db rid = (Approve_error c m, db')"
  shows "db' = db"
  using assms
  by (auto simp: POST_approve_def POST_approve_try_def
           split: sum.splits if_splits prod.splits option.splits)

lemma commit_approval_codes:
  "founders_invite_codes (commit_approval env db rid fr code expiry) =
     founders_invite_codes db @
       [\<lparr> c_id = new_code_id env, c_code = code, c_email = r_email fr, c_phone = r_phone fr,
          c_request_id = ToString rid, c_expires_at = expiry \<rparr>]"
  by (simp add: commit_approval_def Let_def split: email_outcome.splits)

lemma commit_approval_requests:
  "founders_requests (commit_approval env db rid fr code expiry) =
     (if status_update_fails env then founders_requests db
      else approve_status (ToString rid) (founders_requests db))"
  by (simp add: commit_approval_def Let_def split: email_outcome.splits)

lemma POST_approve_cases:
  obtains (err) c m where "POST_approve env db rid = (Approve_error c m, db)"
  | (ok) code expiry db' where "POST_approve env db rid = (Approve_ok code expiry, db')"
proof (cases "POST_approve env db rid")
  case (Pair resp db')
  show ?thesis
  proof (cases resp)
    case (Approve_error c m)
    with Pair POST_approve_error_unchanged [of env db rid c m db'] err show ?thesis by simp
  next
    case (Approve_ok code expiry)
    with Pair ok show ?thesis by simp
  qed
qed

text \<open>
  Claim C3. Whenever an approval call has put a row into the invite-code
  table, its answer is the success answer carrying that row's code and
  expiry, and the answer is the same whether or not the status update fails
  and whatever the mail sender does (delivers, reports a failure, throws).
\<close>

theorem approval_success_after_commit:
  assumes "founders_invite_codes (snd (POST_approve env db rid)) \<noteq> founders_invite_codes db"
  shows "\<exists>code expiry.
           fst (POST_approve env db rid) = Approve_ok code expiry \<and>
           (\<exists>row. founders_invite_codes (snd (POST_approve env db rid)) =
                    founders_invite_codes db @ [row] \<and>
                  c_code row = code \<and> c_expires_at row = expiry) \<and>
           (\<forall>upd sent.
              fst (POST_approve (env\<lparr>status_update_fails := upd, mail_result := sent\<rparr>) db rid) =
                Approve_ok code expiry)"
proof (cases rule: POST_approve_cases [of env db rid])
  case (err c m)
  with assms show ?thesis by simp
next
  case (ok code expiry db')
  from POST_approve_okD [OF ok] obtain fr n where
    h: "truthy rid" "select_request env db rid = (Some fr, False)" "r_status fr = ''pending''"
       "unique_loop env (founders_invite_codes db) (candidate env 0) 0 = (code, n)"
       "n < maxAttempts"
       "setHours (zone env) (date_now env) (getHours (zone env) (date_now env) + 72) = Some expiry"
       "\<not> code_insert_fails env"
       "db' = commit_approval env db rid fr code expiry"
    by blast
  have rows: "\<exists>row. founders_invite_codes (snd (POST_approve env db rid)) =
                    founders_invite_codes db @ [row] \<and>
                  c_code row = code \<and> c_expires_at row = expiry"
    using ok h(8) by (simp add: commit_approval_codes)
  have same: "fst (POST_approve (env\<lparr>status_update_fails := upd, mail_result := sent\<rparr>) db rid) =
                Approve_ok code expiry" for upd sent
  proof -
    let ?env = "env\<lparr>status_update_fails := upd, mail_result := sent\<rparr>"
    have 1: "select_request ?env db rid = (Some fr, False)"
      using h(2) by (simp add: select_request_def)
    have "unique_loop ?env (founders_invite_codes db) (candidate env 0) 0 = (code, n)"
      using h(4) unique_loop_env [of ?env env] by simp
    moreover have "candidate ?env 0 = candidate env 0" by (simp add: candidate_def)
    ultimately have 2: "unique_loop ?env (founders_invite_codes db) (candidate ?env 0) 0 = (code, n)"
      by simp
    have 3: "setHours (zone ?env) (date_now ?env) (getHours (zone ?env) (date_now ?env) + 72) = Some expiry"
      using h(6) by simp
    have 4: "\<not> code_insert_fails ?env" using h(7) by simp
    from POST_approve_okI [OF h(1) 1 h(3) 2 h(5) 3 4] show ?thesis by simp
  qed
  from ok rows same show ?thesis by simp
qed

text \<open>
  Claim C4, amended. The claim has approval answer 404 exactly when no
  request has the given id, and a failure of the store while fetching
  answered with a 500. The handler tests \<open>fetchError || !foundersRequest\<close>,
  so a fetch that the store fails is answered 404 as well. What holds:
  approval answers 404 \<open>Request not found\<close> exactly when a request id is given
  and the fetch does not return a single row, that is, when the store fails
  the fetch or the number of rows with that id is not one.
\<close>

theorem approval_not_found_iff:
  "fst (POST_approve env db rid) = Approve_error 404 ''Request not found'' \<longleftrightarrow>
     truthy rid \<and>
     (fetch_fails env \<or>
      length (filter (\<lambda>r. r_id r = ToString rid) (founders_requests db)) \<noteq> 1)"
  by (auto simp: POST_approve_def POST_approve_try_def select_request_def single_def
           split: sum.splits if_splits prod.splits option.splits list.splits)

lemma filter_approve_status:
  "filter (\<lambda>r. r_id r = k) (approve_status k rows) =
     map (\<lambda>r. r\<lparr>r_status := ''approved''\<rparr>) (filter (\<lambda>r. r_id r = k) rows)"
  by (induction rows) (auto simp: approve_status_def)

text \<open>
  Claim C5, amended. The claim has every second approval of a request
  answered with the conflict error, one code row existing afterwards. The
  status update of an approval is best-effort: when it fails the request
  stays pending and a second approval issues a second code. What holds: if
  the first approval succeeded with its status update applied, and the
  request had no code row before it, then a second approval whose fetch the
  store answers gets 400 \<open>Request has already been processed\<close>, changes
  nothing, and exactly one code row carries the request's id.
\<close>

theorem second_approval_conflict:
  assumes first: "POST_approve env1 db rid = (Approve_ok code expiry, db1)"
    and upd: "\<not> status_update_fails env1"
    and fetch2: "\<not> fetch_fails env2"
    and fresh: "\<not> list_ex (\<lambda>c. c_request_id c = ToString rid) (founders_invite_codes db)"
  shows "POST_approve env2 db1 rid =
           (Approve_error 400 ''Request has already been processed'', db1) \<and>
         length (filter (\<lambda>c. c_request_id c = ToString rid)
                   (founders_invite_codes (snd (POST_approve env2 db1 rid)))) = 1"
proof -
  from POST_approve_okD [OF first] obtain fr n where
    h: "truthy rid" "select_request env1 db rid = (Some fr, False)"
       "db1 = commit_approval env1 db rid fr code expiry"
    by blast
  from h(2) have f: "filter (\<lambda>r. r_id r = ToString rid) (founders_requests db) = [fr]"
    by (auto simp: select_request_def single_def split: if_splits list.splits)
  have "founders_requests db1 = approve_status (ToString rid) (founders_requests db)"
    using h(3) upd by (simp add: commit_approval_requests)
  then have "filter (\<lambda>r. r_id r = ToString rid) (founders_requests db1) =
               [fr\<lparr>r_status := ''approved''\<rparr>]"
    using f by (simp add: filter_approve_status)
  then have sel: "select_request env2 db1 rid = (Some (fr\<lparr>r_status := ''approved''\<rparr>), False)"
    using fetch2 by (simp add: select_request_def single_def)
  have second: "POST_approve env2 db1 rid =
           (Approve_error 400 ''Request has already been processed'', db1)"
    using h(1) sel by (simp add: POST_approve_def POST_approve_try_def)
  have "filter (\<lambda>c. c_request_id c = ToString rid) (founders_invite_codes db) = []"
    using fresh by (auto simp: list_ex_iff filter_empty_conv)
  then have "length (filter (\<lambda>c. c_request_id c = ToString rid) (founders_invite_codes db1)) = 1"
    using h(3) by (simp add: commit_approval_codes)
  with second show ?thesis by simp
qed

text \<open>
  Claim C7. When every draw \<open>r\<close> of \<open>Math.random\<close> satisfies \<open>0 \<le> r < 1\<close>, a
  code made by the generator has eleven characters: \<open>FC-\<close>, then eight from
  the alphabet \<open>ABCDEFGHJKLMNPQRSTUVWXYZ23456789\<close>. The code in the answer of
  a successful approval, which is the code of the row it inserted, has that
  form.
\<close>

theorem invite_code_format:
  assumes "\<forall>k. 0 \<le> math_random env k \<and> math_random env k < 1"
  shows "code_format (generateInviteCode (math_random env) pos) \<and>
         (\<forall>db rid code expiry db'.
            POST_approve env db rid = (Approve_ok code expiry, db') \<longrightarrow>
              code_format code \<and>
              (\<exists>row. founders_invite_codes db' = founders_invite_codes db @ [row] \<and>
                     c_code row = code))"
proof -
  have g: "code_format (generateInviteCode (math_random env) p)" for p
    using assms by (rule generateInviteCode_format)
  have "code_format code \<and>
        (\<exists>row. founders_invite_codes db' = founders_invite_codes db @ [row] \<and> c_code row = code)"
    if ok: "POST_approve env db rid = (Approve_ok code expiry, db')" for db rid code expiry db'
  proof -
    from POST_approve_okD [OF ok] obtain fr n where
      h: "unique_loop env (founders_invite_codes db) (candidate env 0) 0 = (code, n)"
         "n < maxAttempts" "db' = commit_approval env db rid fr code expiry"
      by blast
    from unique_loop_spec [OF h(1)] h(2) have "code = candidate env n" by simp
    then have "code_format code" using g by (simp add: candidate_def)
    with h(3) show ?thesis by (simp add: commit_approval_codes)
  qed
  with g show ?thesis by blast
qed

lemma select_request_Some:
  assumes "select_request env db rid = (Some fr, err)"
  shows "filter (\<lambda>r. r_id r = ToString rid) (founders_requests db) = [fr] \<and>
         fr \<in> set (founders_requests db) \<and> r_id fr = ToString rid"
proof -
  from assms have f: "filter (\<lambda>r. r_id r = ToString rid) (founders_requests db) = [fr]"
    by (auto simp: select_request_def single_def split: if_splits list.splits)
  have "fr \<in> set (filter (\<lambda>r. r_id r = ToString rid) (founders_requests db))"
    unfolding f by simp
  then have "fr \<in> set (founders_requests db) \<and> r_id fr = ToString rid"
    by (simp only: set_filter mem_Collect_eq)
  with f show ?thesis by blast
qed

text \<open>
  The loop queries the invite-code table for a candidate and makes a new
  one when the query returns a row; \<open>attempts\<close> counts the regenerations and
  never exceeds \<open>maxAttempts = 10\<close>, so the table is queried for at most the
  first ten candidates, and the candidate made after a tenth collision is
  never queried. Approval answers 500 \<open>Failed to generate unique code\<close>
  exactly when a request id is given, the fetch returns a single pending
  request, and the query for each of the first ten candidates returns a
  row. In that case the store is unchanged (no code row inserted, the
  request still pending) and each of those ten candidates is the code of a
  row of the table.
\<close>

lemma generation_error_iff:
  "(fst (POST_approve env db rid) = Approve_error 500 ''Failed to generate unique code'' \<longleftrightarrow>
      truthy rid \<and>
      (\<exists>fr. select_request env db rid = (Some fr, False) \<and> r_status fr = ''pending'') \<and>
      (\<forall>k < maxAttempts.
         select_code env (founders_invite_codes db) (candidate env k) k \<noteq> None)) \<and>
   (fst (POST_approve env db rid) = Approve_error 500 ''Failed to generate unique code'' \<longrightarrow>
      snd (POST_approve env db rid) = db \<and>
      list_ex (\<lambda>r. r_id r = ToString rid \<and> r_status r = ''pending'')
        (founders_requests (snd (POST_approve env db rid))) \<and>
      (\<forall>k < maxAttempts. candidate env k \<in> c_code ` set (founders_invite_codes db))) \<and>
   snd (unique_loop env (founders_invite_codes db) (candidate env 0) 0) \<le> maxAttempts \<and>
   maxAttempts = 10"
proof -
  let ?G = "Approve_error 500 ''Failed to generate unique code''"
  let ?codes = "founders_invite_codes db"
  obtain code n where loop: "unique_loop env ?codes (candidate env 0) 0 = (code, n)"
    by (cases "unique_loop env ?codes (candidate env 0) 0") auto
  have ex: "n \<ge> maxAttempts \<longleftrightarrow>
              (\<forall>k < maxAttempts. select_code env ?codes (candidate env k) k \<noteq> None)"
    using loop by (rule unique_loop_exhausted)
  have le: "n \<le> maxAttempts"
    using unique_loop_spec [OF loop] by simp
  have iff: "fst (POST_approve env db rid) = ?G \<longleftrightarrow>
      truthy rid \<and>
      (\<exists>fr. select_request env db rid = (Some fr, False) \<and> r_status fr = ''pending'') \<and>
      n \<ge> maxAttempts"
    using loop
    by (auto simp: POST_approve_def POST_approve_try_def candidate_0
             split: sum.splits if_splits prod.splits option.splits)
  have unchanged: "snd (POST_approve env db rid) = db" if "fst (POST_approve env db rid) = ?G"
    using that POST_approve_error_unchanged [of env db rid 500 "''Failed to generate unique code''"]
    by (cases "POST_approve env db rid") auto
  have pending: "list_ex (\<lambda>r. r_id r = ToString rid \<and> r_status r = ''pending'')
                   (founders_requests db)" if "fst (POST_approve env db rid) = ?G"
  proof -
    from that iff obtain fr where
      fr: "select_request env db rid = (Some fr, False)" "r_status fr = ''pending''" by blast
    from select_request_Some [OF fr(1)] fr(2) show ?thesis
      by (auto simp: list_ex_iff)
  qed
  have taken: "\<forall>k < maxAttempts. candidate env k \<in> c_code ` set ?codes"
    if "\<forall>k < maxAttempts. select_code env ?codes (candidate env k) k \<noteq> None"
  proof (intro allI impI)
    fix k assume "k < maxAttempts"
    with that obtain row where "select_code env ?codes (candidate env k) k = Some row" by auto
    from select_code_Some [OF this] have "row \<in> set ?codes" "c_code row = candidate env k"
      by simp_all
    then show "candidate env k \<in> c_code ` set ?codes" by (metis imageI)
  qed
  show ?thesis
    using iff ex le unchanged pending taken loop by (simp add: maxAttempts_def)
qed

text \<open>
  When the store answers the uniqueness queries and the table has no
  repeated code, a query returns a row exactly when the candidate is in the
  table: the generation error then means that all ten candidates are taken.
\<close>

lemma select_code_answered:
  assumes "distinct (map c_code codes)" "\<not> unique_check_fails env k"
  shows "select_code env codes c k \<noteq> None \<longleftrightarrow> c \<in> c_code ` set codes"
proof
  assume "select_code env codes c k \<noteq> None"
  then obtain row where "select_code env codes c k = Some row" by auto
  from select_code_Some [OF this] have "row \<in> set codes" "c_code row = c" by simp_all
  then show "c \<in> c_code ` set codes" by (metis imageI)
next
  assume m: "c \<in> c_code ` set codes"
  show "select_code env codes c k \<noteq> None"
  proof
    assume "select_code env codes c k = None"
    from select_code_None_absent [OF this assms(2,1)] m show False by simp
  qed
qed

lemma generation_error_iff_table:
  assumes "codes_unique db" "\<forall>k < maxAttempts. \<not> unique_check_fails env k"
  shows "fst (POST_approve env db rid) = Approve_error 500 ''Failed to generate unique code'' \<longleftrightarrow>
           truthy rid \<and>
           (\<exists>fr. select_request env db rid = (Some fr, False) \<and> r_status fr = ''pending'') \<and>
           (\<forall>k < maxAttempts. candidate env k \<in> c_code ` set (founders_invite_codes db))"
proof -
  have "(\<forall>k < maxAttempts.
           select_code env (founders_invite_codes db) (candidate env k) k \<noteq> None) \<longleftrightarrow>
        (\<forall>k < maxAttempts. candidate env k \<in> c_code ` set (founders_invite_codes db))"
    using assms select_code_answered [of "founders_invite_codes db" env]
    by (simp add: codes_unique_def)
  with generation_error_iff [of env db rid] show ?thesis by simp
qed

section \<open>Invariants\<close>

lemma matching_filter:
  "matching e st rows = filter (\<lambda>r. r_email r = e) (filter (\<lambda>r. r_status r = st) rows)"
  by (simp add: matching_def conj_commute)

lemma pending_unique_matching:
  assumes "pending_unique db"
  shows "length (matching e ''pending'' (founders_requests db)) \<le> 1"
proof -
  let ?p = "filter (\<lambda>r. r_status r = ''pending'') (founders_requests db)"
  have "distinct (map r_email (filter (\<lambda>r. r_email r = e) ?p))"
    using assms unfolding pending_unique_def by (rule distinct_map_filter)
  moreover have "\<forall>y \<in> set (map r_email (filter (\<lambda>r. r_email r = e) ?p)). y = e"
    by auto
  ultimately have "length (map r_email (filter (\<lambda>r. r_email r = e) ?p)) \<le> 1"
    by (rule distinct_const_length)
  then show ?thesis by (simp add: matching_filter)
qed

lemma single_None_answered:
  assumes "fst (single False rows) = None" "length rows \<le> 1"
  shows "rows = []"
  using assms by (cases rows) (auto simp: single_def split: list.splits)

lemma single_Some_answered:
  assumes "length rows \<le> 1" "rows \<noteq> []"
  shows "\<exists>r. fst (single False rows) = Some r"
  using assms by (cases rows) (auto simp: single_def split: list.splits)

lemma intake_pending_unique:
  assumes inv: "pending_unique db" and ans: "\<not> pending_check_fails env"
  shows "pending_unique (snd (POST_request env db body))"
proof (cases "POST_request env db body")
  case (Pair resp db')
  show ?thesis
  proof (cases resp)
    case (Intake_error c m)
    with Pair POST_request_error_unchanged [of env db body c m db'] inv show ?thesis by simp
  next
    case (Intake_ok i)
    with Pair have ok: "POST_request env db body = (Intake_ok i, db')" by simp
    from POST_request_ok [OF ok] obtain f e p pr nt where
      chk: "fst (single (pending_check_fails env)
                  (matching (toLowerCase e) ''pending'' (founders_requests db))) = None"
      and db': "db' = db\<lparr>founders_requests := founders_requests db @
                   [\<lparr> r_id = new_id env, r_full_name = trim f, r_email = toLowerCase e,
                      r_phone = trim p, r_profession = trim pr, r_note = nt,
                      r_status = ''pending'', r_created_at = inserted_at env \<rparr>]\<rparr>"
      by blast
    have "matching (toLowerCase e) ''pending'' (founders_requests db) = []"
      using chk ans pending_unique_matching [OF inv, of "toLowerCase e"]
      by (auto intro: single_None_answered)
    then have "toLowerCase e \<notin> set (map r_email (filter (\<lambda>r. r_status r = ''pending'') (founders_requests db)))"
      by (auto simp: matching_def filter_empty_conv)
    with inv db' have "pending_unique db'"
      by (simp add: pending_unique_def)
    with Pair show ?thesis by simp
  qed
qed

lemma intake_rejects_pending:
  assumes inv: "pending_unique db" and ans: "\<not> pending_check_fails env"
    and e: "email body = Str e"
    and ex: "list_ex (\<lambda>r. r_email r = toLowerCase e \<and> r_status r = ''pending'') (founders_requests db)"
  shows "snd (POST_request env db body) = db"
proof (cases "POST_request env db body")
  case (Pair resp db')
  show ?thesis
  proof (cases resp)
    case (Intake_error c m)
    with Pair POST_request_error_unchanged [of env db body c m db'] show ?thesis by simp
  next
    case (Intake_ok i)
    with Pair have ok: "POST_request env db body = (Intake_ok i, db')" by simp
    from POST_request_ok [OF ok] e have
      chk: "fst (single (pending_check_fails env)
                  (matching (toLowerCase e) ''pending'' (founders_requests db))) = None"
      by auto
    have "matching (toLowerCase e) ''pending'' (founders_requests db) \<noteq> []"
      using ex by (auto simp: matching_def list_ex_iff filter_empty_conv)
    from single_Some_answered [OF pending_unique_matching [OF inv] this] chk ans
    show ?thesis by auto
  qed
qed

lemma intake_conflict:
  assumes inv: "pending_unique db" and ans: "\<not> pending_check_fails env"
    and e: "email body = Str e" "emailRegex_test e"
    and t: "truthy (fullName body)" "truthy (phone body)" "truthy (profession body)"
    and ex: "list_ex (\<lambda>r. r_email r = toLowerCase e \<and> r_status r = ''pending'') (founders_requests db)"
  shows "POST_request env db body =
           (Intake_error 400 ''You already have a pending request. Please wait for approval.'', db)"
proof -
  have "matching (toLowerCase e) ''pending'' (founders_requests db) \<noteq> []"
    using ex by (auto simp: matching_def list_ex_iff filter_empty_conv)
  from single_Some_answered [OF pending_unique_matching [OF inv] this] ans obtain r where
    "fst (single (pending_check_fails env)
            (matching (toLowerCase e) ''pending'' (founders_requests db))) = Some r"
    by auto
  moreover have "truthy (email body)" using e by (simp add: emailRegex_nonempty)
  ultimately show ?thesis
    using e t by (simp add: POST_request_def POST_request_try_def)
qed

lemma filter_pending_approve_status:
  "filter (\<lambda>r. r_status r = ''pending'') (approve_status k rows) =
     filter (\<lambda>r. r_id r \<noteq> k) (filter (\<lambda>r. r_status r = ''pending'') rows)"
  by (induction rows) (auto simp: approve_status_def)

lemma approve_requests:
  "founders_requests (snd (POST_approve env db rid)) = founders_requests db \<or>
   founders_requests (snd (POST_approve env db rid)) =
     approve_status (ToString rid) (founders_requests db)"
proof (cases rule: POST_approve_cases [of env db rid])
  case (err c m)
  then show ?thesis by simp
next
  case (ok code expiry db')
  from POST_approve_okD [OF ok] obtain fr where
    "db' = commit_approval env db rid fr code expiry" by blast
  with ok show ?thesis by (simp add: commit_approval_requests)
qed

lemma approve_pending_rows:
  "set (filter (\<lambda>r. r_status r = ''pending'') (founders_requests (snd (POST_approve env db rid))))
     \<subseteq> set (filter (\<lambda>r. r_status r = ''pending'') (founders_requests db))"
proof -
  let ?p = "filter (\<lambda>r. r_status r = ''pending'')"
  from approve_requests [of env db rid] show ?thesis
  proof
    assume "founders_requests (snd (POST_approve env db rid)) = founders_requests db"
    then show ?thesis by simp
  next
    assume "founders_requests (snd (POST_approve env db rid)) =
              approve_status (ToString rid) (founders_requests db)"
    then have "?p (founders_requests (snd (POST_approve env db rid))) =
                 filter (\<lambda>r. r_id r \<noteq> ToString rid) (?p (founders_requests db))"
      by (simp only: filter_pending_approve_status)
    then show ?thesis by (simp only: filter_is_subset)
  qed
qed

lemma approve_pending_unique:
  assumes "pending_unique db"
  shows "pending_unique (snd (POST_approve env db rid))"
proof -
  have "distinct (map r_email (filter (\<lambda>r. r_id r \<noteq> ToString rid)
          (filter (\<lambda>r. r_status r = ''pending'') (founders_requests db))))"
    using assms unfolding pending_unique_def by (rule distinct_map_filter)
  with assms approve_requests [of env db rid] show ?thesis
    by (auto simp: pending_unique_def filter_pending_approve_status)
qed

lemma step_pending_unique:
  assumes "pending_unique db" "pending_check_answered c"
  shows "pending_unique (step db c)"
  using assms by (cases c) (simp_all add: intake_pending_unique approve_pending_unique)

lemma run_pending_unique:
  assumes "pending_unique db" "list_all pending_check_answered calls"
  shows "pending_unique (run db calls)"
  using assms unfolding run_def
  by (induction calls arbitrary: db) (simp_all add: step_pending_unique)

text \<open>
  What the duplicate check achieves when the store answers it. Stored
  emails are in lower case, since intake is the only writer of the column.
  A store in which that holds and no email has two pending rows keeps both
  properties through every sequence of intake, lookup and approval calls in
  which the store answers each intake's pending-request query; such an
  intake leaves the store unchanged when a pending row exists for the
  email, compared without regard to case, and answers 400
  \<open>You already have a pending request\<close> when the submission passes the two
  validations; and every pending row after an approval was a pending row
  before it.
\<close>

lemma intake_stored_lower:
  assumes "stored_lower db"
  shows "stored_lower (snd (POST_request env db body))"
proof (cases "POST_request env db body")
  case (Pair resp db')
  show ?thesis
  proof (cases resp)
    case (Intake_error c m)
    with Pair POST_request_error_unchanged [of env db body c m db'] assms show ?thesis by simp
  next
    case (Intake_ok i)
    with Pair have ok: "POST_request env db body = (Intake_ok i, db')" by simp
    from POST_request_ok [OF ok] assms Pair show ?thesis
      by (auto simp: stored_lower_def toLowerCase_idem)
  qed
qed

lemma approve_status_emails:
  "list_all (\<lambda>r. P (r_email r)) (approve_status k rows) = list_all (\<lambda>r. P (r_email r)) rows"
  by (induction rows) (auto simp: approve_status_def)

lemma approve_stored_lower:
  assumes "stored_lower db"
  shows "stored_lower (snd (POST_approve env db rid))"
  using approve_requests [of env db rid] assms
    approve_status_emails [of "\<lambda>e. toLowerCase e = e" "ToString rid" "founders_requests db"]
  by (auto simp: stored_lower_def)

lemma step_stored_lower:
  assumes "stored_lower db"
  shows "stored_lower (step db c)"
  using assms by (cases c) (simp_all add: intake_stored_lower approve_stored_lower)

lemma run_stored_lower:
  assumes "stored_lower db"
  shows "stored_lower (run db calls)"
  using assms unfolding run_def
  by (induction calls arbitrary: db) (simp_all add: step_stored_lower)

lemma stored_lower_pending:
  assumes "stored_lower db"
    and "list_ex (\<lambda>r. toLowerCase (r_email r) = toLowerCase e \<and> r_status r = ''pending'')
           (founders_requests db)"
  shows "list_ex (\<lambda>r. r_email r = toLowerCase e \<and> r_status r = ''pending'') (founders_requests db)"
  using assms by (auto simp: stored_lower_def list_all_iff list_ex_iff)

lemma pending_unique_when_answered:
  "(stored_lower db \<and> pending_unique db \<and> list_all pending_check_answered calls \<longrightarrow>
      stored_lower (run db calls) \<and> pending_unique (run db calls)) \<and>
   (stored_lower db \<and> pending_unique db \<and> \<not> pending_check_fails env \<and> email body = Str e \<and>
    list_ex (\<lambda>r. toLowerCase (r_email r) = toLowerCase e \<and> r_status r = ''pending'')
      (founders_requests db) \<longrightarrow>
      snd (POST_request env db body) = db \<and>
      (emailRegex_test e \<and> truthy (fullName body) \<and> truthy (phone body) \<and>
       truthy (profession body) \<longrightarrow>
         fst (POST_request env db body) =
           Intake_error 400 ''You already have a pending request. Please wait for approval.'')) \<and>
   set (filter (\<lambda>r. r_status r = ''pending'') (founders_requests (snd (POST_approve aenv db rid))))
     \<subseteq> set (filter (\<lambda>r. r_status r = ''pending'') (founders_requests db))"
proof -
  have a: "stored_lower (run db calls) \<and> pending_unique (run db calls)"
    if "stored_lower db" "pending_unique db" "list_all pending_check_answered calls"
    using that by (simp add: run_stored_lower run_pending_unique)
  have b: "snd (POST_request env db body) = db"
    if "stored_lower db" "pending_unique db" "\<not> pending_check_fails env" "email body = Str e"
       "list_ex (\<lambda>r. toLowerCase (r_email r) = toLowerCase e \<and> r_status r = ''pending'')
          (founders_requests db)"
    using intake_rejects_pending [OF that(2,3,4) stored_lower_pending [OF that(1,5)]] .
  have c: "fst (POST_request env db body) =
           Intake_error 400 ''You already have a pending request. Please wait for approval.''"
    if "stored_lower db" "pending_unique db" "\<not> pending_check_fails env" "email body = Str e"
       "list_ex (\<lambda>r. toLowerCase (r_email r) = toLowerCase e \<and> r_status r = ''pending'')
          (founders_requests db)"
       "emailRegex_test e" "truthy (fullName body)" "truthy (phone body)" "truthy (profession body)"
    using intake_conflict [OF that(2,3,4,6,7,8,9) stored_lower_pending [OF that(1,5)]] by simp
  from a b c approve_pending_rows [of aenv db rid] show ?thesis by blast
qed

lemma intake_codes:
  "founders_invite_codes (snd (POST_request env db body)) = founders_invite_codes db"
proof (cases "POST_request env db body")
  case (Pair resp db')
  show ?thesis
  proof (cases resp)
    case (Intake_error c m)
    with Pair POST_request_error_unchanged [of env db body c m db'] show ?thesis by simp
  next
    case (Intake_ok i)
    with Pair have ok: "POST_request env db body = (Intake_ok i, db')" by simp
    from POST_request_ok [OF ok] Pair show ?thesis by auto
  qed
qed

lemma approve_fresh_code:
  assumes inv: "codes_unique db"
    and ans: "\<forall>k < maxAttempts. \<not> unique_check_fails env k"
    and ok: "POST_approve env db rid = (Approve_ok code expiry, db')"
  shows "code \<notin> c_code ` set (founders_invite_codes db) \<and>
         (\<exists>row. founders_invite_codes db' = founders_invite_codes db @ [row] \<and> c_code row = code)"
proof -
  from POST_approve_okD [OF ok] obtain fr n where
    h: "unique_loop env (founders_invite_codes db) (candidate env 0) 0 = (code, n)"
       "n < maxAttempts" "db' = commit_approval env db rid fr code expiry"
    by blast
  from unique_loop_spec [OF h(1)] h(2) have
    "select_code env (founders_invite_codes db) code n = None" by blast
  moreover have "\<not> unique_check_fails env n" using ans h(2) by simp
  ultimately have "code \<notin> c_code ` set (founders_invite_codes db)"
    using inv unfolding codes_unique_def by (rule select_code_None_absent)
  with h(3) show ?thesis by (simp add: commit_approval_codes)
qed

lemma approve_codes_unique:
  assumes inv: "codes_unique db"
    and ans: "\<forall>k < maxAttempts. \<not> unique_check_fails env k"
  shows "codes_unique (snd (POST_approve env db rid))"
proof (cases rule: POST_approve_cases [of env db rid])
  case (err c m)
  with inv show ?thesis by simp
next
  case (ok code expiry db')
  from approve_fresh_code [OF inv ans ok] inv ok show ?thesis
    by (auto simp: codes_unique_def)
qed

lemma step_codes_unique:
  assumes "codes_unique db" "unique_checks_answered c"
  shows "codes_unique (step db c)"
proof (cases c)
  case (Intake env body)
  with assms(1) show ?thesis by (simp add: codes_unique_def intake_codes)
next
  case (Lookup fails e)
  with assms(1) show ?thesis by simp
next
  case (Approve env rid)
  with assms(2) have "\<forall>k < maxAttempts. \<not> unique_check_fails env k"
    by (simp add: list_all_iff)
  with assms(1) Approve show ?thesis by (simp add: approve_codes_unique)
qed

lemma run_codes_unique:
  assumes "codes_unique db" "list_all unique_checks_answered calls"
  shows "codes_unique (run db calls)"
  using assms unfolding run_def
  by (induction calls arbitrary: db) (simp_all add: step_codes_unique)

text \<open>
  What the uniqueness loop achieves when the store answers its queries: a
  table without repeated codes stays so through every sequence of calls,
  and the code of a successful approval is none of the codes in the table
  and is the code of the one row added.
\<close>

lemma codes_unique_when_answered:
  "(codes_unique db \<and> list_all unique_checks_answered calls \<longrightarrow> codes_unique (run db calls)) \<and>
   (codes_unique db \<and> (\<forall>k < maxAttempts. \<not> unique_check_fails env k) \<and>
    POST_approve env db rid = (Approve_ok code expiry, db') \<longrightarrow>
      code \<notin> c_code ` set (founders_invite_codes db) \<and>
      (\<exists>row. founders_invite_codes db' = founders_invite_codes db @ [row] \<and> c_code row = code))"
  using run_codes_unique [of db calls] approve_fresh_code [of db env rid code expiry db']
  by blast

section \<open>The example of the specification, evaluated\<close>

text \<open>
  The definitions are run on the example: first the pieces that do not
  depend on the store, then the two handlers.
\<close>

lemma generate_zero_draws: "generateInviteCode (\<lambda>k. 0) pos = ''FC-AAAAAAAA''"
  by (simp add: generateInviteCode_def chars_def charAt_def)

lemma generate_half_draws: "generateInviteCode (\<lambda>k. 1 / 2) pos = ''FC-SSSSSSSS''"
  by (simp add: generateInviteCode_def chars_def charAt_def)

lemma expiry_utc_zone:
  "setHours utc_zone t (getHours utc_zone t + 72) = TimeClip (t + 259200000)"
  by (simp add: setHours_getHours_plus UTC_def LocalTime_def utc_zone_def msPerHour_def)

lemma expiry_new_york:
  "setHours new_york_zone 1772884800000 (getHours new_york_zone 1772884800000 + 72) =
     Some 1773140400000"
  by (simp add: setHours_getHours_plus UTC_def LocalTime_def new_york_zone_def msPerHour_def
        TimeClip_def)

lemmas approve_eval =
  POST_approve_def POST_approve_try_def select_request_def select_code_def single_def
  unique_loop.simps commit_approval_def approve_status_def maxAttempts_def
  generate_zero_draws generate_half_draws expiry_utc_zone TimeClip_def
  approval_env_def jane_store_def jane_row_def taken_store_def

lemmas intake_eval =
  POST_request_def POST_request_try_def insert_payload_def matching_def single_def
  emailRegex_test_def email_class_def is_space_def trim_def toLowerCase_def toLowerChar_def
  upper_letters_def lower_letters_def
  intake_env_def jane_body_def jane_store_def jane_row_def empty_store_def

lemma approve_jane:
  "POST_approve approval_env jane_store (Str ''req-1'') =
     (Approve_ok ''FC-AAAAAAAA'' 1773144000000,
      \<lparr> founders_requests = [jane_row\<lparr>r_status := ''approved''\<rparr>],
        founders_invite_codes =
          [\<lparr> c_id = ''code-1'', c_code = ''FC-AAAAAAAA'', c_email = ''jane@x.com'',
             c_phone = ''+1 555'', c_request_id = ''req-1'', c_expires_at = 1773144000000 \<rparr>],
        outbox = [\<lparr> mail_to = ''jane@x.com'', mail_name = ''Jane Doe'',
                    mail_code = ''FC-AAAAAAAA'', mail_expires = 1773144000000 \<rparr>] \<rparr>)"
  by (simp add: approve_eval)

lemma intake_jane:
  "POST_request intake_env empty_store jane_body = (Intake_ok ''req-1'', jane_store)"
  by (simp add: intake_eval)

text \<open>
  Jane Doe's submission with white space around the fields, to the empty
  store: it is valid and no duplicate, and is stored with the name
  \<open>Jane Doe\<close>, the email \<open>jane@x.com\<close> and no note; the lookup reports it
  pending.
\<close>

theorem intake_valid_submission_witness:
  "POST_request intake_env empty_store padded_body = (Intake_ok ''req-1'', jane_store) \<and>
   GET_request False jane_store (Some ''JANE@X.COM'') = Status_found ''pending'' 1772884700000"
  using intake_valid_submission [where body = padded_body and f = "CHR 0xA0 # '' Jane Doe  ''"
      and e = "''JANE@X.COM''" and p = "'' +1 555''" and pr = "''Designer'' @ [CHR 0x0A]"
      and n = "''  ''" and db = empty_store and env = intake_env]
  by (simp add: intake_eval padded_body_def status_domain_def duplicate_def)

text \<open>
  With the name left empty the submission is rejected; with a name of two
  no-break spaces it is accepted and the stored name is empty.
\<close>

theorem required_field_empty_or_blank_witness:
  "blank [CHR 0xA0, CHR 0xA0] \<and>
   POST_request intake_env empty_store (jane_body\<lparr>fullName := Str []\<rparr>) =
     (required_error, empty_store) \<and>
   POST_request intake_env empty_store (jane_body\<lparr>fullName := Str [CHR 0xA0, CHR 0xA0]\<rparr>) =
     (Intake_ok ''req-1'',
      empty_store\<lparr>founders_requests := [jane_row\<lparr>r_full_name := []\<rparr>]\<rparr>)"
  using required_field_empty_or_blank [of "[CHR 0xA0, CHR 0xA0]" intake_env empty_store jane_body]
  by (simp add: intake_eval blank_def required_error_def)

text \<open>
  Approving Jane's request while the status update fails and the mail
  sender throws: the answer is the success answer, and the request is still
  pending.
\<close>

theorem approval_success_after_commit_witness:
  "fst (POST_approve (approval_env\<lparr>status_update_fails := True, mail_result := Email_threw\<rparr>)
          jane_store (Str ''req-1'')) = Approve_ok ''FC-AAAAAAAA'' 1773144000000 \<and>
   founders_requests
     (snd (POST_approve (approval_env\<lparr>status_update_fails := True, mail_result := Email_threw\<rparr>)
             jane_store (Str ''req-1''))) = [jane_row]"
  using approval_success_after_commit
          [of "approval_env\<lparr>status_update_fails := True, mail_result := Email_threw\<rparr>"
              jane_store "Str ''req-1''"]
  by (simp add: approve_eval)

text \<open>
  Approving an id of which the empty store has no request is answered 404.
\<close>

theorem approval_not_found_iff_witness:
  "fst (POST_approve approval_env empty_store (Str ''req-1'')) =
     Approve_error 404 ''Request not found''"
  using approval_not_found_iff [of approval_env empty_store "Str ''req-1''"]
  by (simp add: empty_store_def)

text \<open>
  Against claim C4 as stated: Jane's request exists, the store fails the
  fetch, and the answer is 404, not a 500.
\<close>

theorem approval_fetch_failure_is_404:
  "list_ex (\<lambda>r. r_id r = ''req-1'') (founders_requests jane_store) \<and>
   POST_approve (approval_env\<lparr>fetch_fails := True\<rparr>) jane_store (Str ''req-1'') =
     (Approve_error 404 ''Request not found'', jane_store)"
  by (simp add: approve_eval)

text \<open>
  Approving Jane's request twice, every store call answered: the second
  call gets the conflict answer and one code row carries her request's id.
\<close>

theorem second_approval_conflict_witness:
  "POST_approve approval_env (snd (POST_approve approval_env jane_store (Str ''req-1'')))
     (Str ''req-1'') =
     (Approve_error 400 ''Request has already been processed'',
      snd (POST_approve approval_env jane_store (Str ''req-1''))) \<and>
   map c_request_id
     (founders_invite_codes (snd (POST_approve approval_env jane_store (Str ''req-1'')))) =
     [''req-1'']"
  using second_approval_conflict
          [of approval_env jane_store "Str ''req-1''" "''FC-AAAAAAAA''" 1773144000000
              "snd (POST_approve approval_env jane_store (Str ''req-1''))" approval_env]
  by (simp add: approve_jane) (simp add: approve_eval)

text \<open>
  Against claim C5 as stated: the status update of the first approval
  fails, so the second approval succeeds as well and two code rows carry
  the request's id.
\<close>

theorem second_approval_after_failed_update:
  "fst (POST_approve (approval_env\<lparr>status_update_fails := True\<rparr>) jane_store (Str ''req-1'')) =
     Approve_ok ''FC-AAAAAAAA'' 1773144000000 \<and>
   fst (POST_approve (approval_env\<lparr>math_random := (\<lambda>k. 1 / 2), new_code_id := ''code-2''\<rparr>)
          (snd (POST_approve (approval_env\<lparr>status_update_fails := True\<rparr>) jane_store
                  (Str ''req-1'')))
          (Str ''req-1'')) =
     Approve_ok ''FC-SSSSSSSS'' 1773144000000 \<and>
   map c_request_id
     (founders_invite_codes
        (snd (POST_approve (approval_env\<lparr>math_random := (\<lambda>k. 1 / 2), new_code_id := ''code-2''\<rparr>)
                (snd (POST_approve (approval_env\<lparr>status_update_fails := True\<rparr>) jane_store
                        (Str ''req-1'')))
                (Str ''req-1'')))) =
     [''req-1'', ''req-1'']"
  by (simp add: approve_eval)

text \<open>
  Draws that are all \<open>0\<close> give the code \<open>FC-AAAAAAAA\<close>.
\<close>

theorem invite_code_format_witness:
  "generateInviteCode (math_random approval_env) 0 = ''FC-AAAAAAAA'' \<and>
   code_format (generateInviteCode (math_random approval_env) 0)"
  using invite_code_format [of approval_env 0]
  by (simp add: approval_env_def generate_zero_draws)

text \<open>
  With draws that are all \<open>0\<close> every candidate is \<open>FC-AAAAAAAA\<close>, which is
  taken: after ten queries the approval gives up and the store is as it was.
\<close>

lemma generation_error_example:
  "POST_approve approval_env taken_store (Str ''req-1'') =
     (Approve_error 500 ''Failed to generate unique code'', taken_store)"
  using generation_error_iff [of approval_env taken_store "Str ''req-1''"]
  by (simp add: approve_eval)

text \<open>
  Claim C1. Intake announces its first query as "Check for existing pending
  request with same email", and the insert and the lookup answer 500 when
  the store fails them; of this query only \<open>data\<close> is read, the error is
  bound to \<open>checkError\<close> and never looked at. Jane's request is pending, she
  submits again, the store fails the pending-request query and then carries
  out the insert: the answer is success, and two pending rows hold
  \<open>jane@x.com\<close>, where the claim has intake never insert a pending row next
  to one of the same email.
\<close>

theorem intake_duplicate_when_check_fails:
  "stored_lower jane_store \<and> pending_unique jane_store \<and>
   fst (POST_request (intake_env\<lparr>pending_check_fails := True, new_id := ''req-2''\<rparr>)
          jane_store jane_body) = Intake_ok ''req-2'' \<and>
   map r_email
     (filter (\<lambda>r. r_status r = ''pending'')
        (founders_requests
           (snd (POST_request (intake_env\<lparr>pending_check_fails := True, new_id := ''req-2''\<rparr>)
                   jane_store jane_body)))) = [''jane@x.com'', ''jane@x.com''] \<and>
   \<not> pending_unique
         (snd (POST_request (intake_env\<lparr>pending_check_fails := True, new_id := ''req-2''\<rparr>)
                 jane_store jane_body))"
  by (simp add: stored_lower_def pending_unique_def intake_eval)

text \<open>
  Claim C8. Each of the first ten candidates is the code of a row of the
  table, so uniqueness is not established within the bound, and the store
  fails the first uniqueness query. The loop leaves at once with \<open>attempts\<close>
  still \<open>0\<close> and the colliding candidate: nothing is regenerated, and the
  approval answers success and inserts a second row with that code, where
  the claim has it regenerate on collision and answer the generation
  error. The cause is the one of claim C9: a query that failed is read as
  "no row".
\<close>

theorem collision_accepted_when_check_fails:
  "list_all
     (\<lambda>k. candidate (approval_env\<lparr>unique_check_fails := (\<lambda>k. k = 0)\<rparr>) k
             \<in> set (map c_code (founders_invite_codes taken_store)))
     [0, 1, 2, 3, 4, 5, 6, 7, 8, 9] \<and>
   unique_loop (approval_env\<lparr>unique_check_fails := (\<lambda>k. k = 0)\<rparr>)
     (founders_invite_codes taken_store) ''FC-AAAAAAAA'' 0 = (''FC-AAAAAAAA'', 0) \<and>
   fst (POST_approve (approval_env\<lparr>unique_check_fails := (\<lambda>k. k = 0)\<rparr>) taken_store
          (Str ''req-1'')) = Approve_ok ''FC-AAAAAAAA'' 1773144000000 \<and>
   length (founders_invite_codes
             (snd (POST_approve (approval_env\<lparr>unique_check_fails := (\<lambda>k. k = 0)\<rparr>) taken_store
                     (Str ''req-1'')))) = 2"
  by (simp add: approve_eval candidate_def)

text \<open>
  Claim C9. The loop is announced as "Ensure code is unique"; of its query
  only \<open>data\<close> is read. The candidate \<open>FC-AAAAAAAA\<close> is already in the table,
  the store fails the uniqueness query and then carries out the insert: the
  approval succeeds and two rows share the code, where the claim has every
  inserted code differ from the codes inserted before.
\<close>

theorem duplicate_code_when_check_fails:
  "codes_unique taken_store \<and>
   fst (POST_approve (approval_env\<lparr>unique_check_fails := (\<lambda>k. True)\<rparr>) taken_store
          (Str ''req-1'')) = Approve_ok ''FC-AAAAAAAA'' 1773144000000 \<and>
   map c_code
     (founders_invite_codes
        (snd (POST_approve (approval_env\<lparr>unique_check_fails := (\<lambda>k. True)\<rparr>) taken_store
                (Str ''req-1'')))) = [''FC-AAAAAAAA'', ''FC-AAAAAAAA''] \<and>
   \<not> codes_unique
         (snd (POST_approve (approval_env\<lparr>unique_check_fails := (\<lambda>k. True)\<rparr>) taken_store
                 (Str ''req-1'')))"
  by (simp add: codes_unique_def approve_eval)

text \<open>
  The expiry of a successful approval, for any zone of the host: the call's
  time stamp is read as local time, 72 hours are added to that reading, and
  the result is read back as UTC. When the zone has one fixed offset (a host
  that keeps UTC, for one) that is the time stamp plus 72 hours.
\<close>

lemma approval_expiry:
  assumes "POST_approve env db rid = (Approve_ok code expiry, db')"
  shows "expiry = date_now env + offset_at_utc (zone env) (date_now env) + 72 * msPerHour
                  - offset_at_local (zone env)
                      (date_now env + offset_at_utc (zone env) (date_now env) + 72 * msPerHour) \<and>
         c_expires_at (last (founders_invite_codes db')) = expiry"
proof -
  from POST_approve_okD [OF assms] obtain fr where
    h: "setHours (zone env) (date_now env) (getHours (zone env) (date_now env) + 72) = Some expiry"
       "db' = commit_approval env db rid fr code expiry"
    by blast
  from h(1) have "expiry = UTC (zone env) (LocalTime (zone env) (date_now env) + 72 * msPerHour)"
    by (simp add: setHours_getHours_plus TimeClip_def split: if_splits)
  with h(2) show ?thesis
    by (simp add: UTC_def LocalTime_def commit_approval_codes)
qed

lemma approval_expiry_fixed_offset:
  assumes "POST_approve env db rid = (Approve_ok code expiry, db')"
    and "offset_at_utc (zone env) = (\<lambda>t. d)" "offset_at_local (zone env) = (\<lambda>t. d)"
  shows "expiry = date_now env + 72 * msPerHour"
  using approval_expiry [OF assms(1)] assms(2,3) by simp

text \<open>
  Claim C6. The handler's comment and the mail it sends say "72 hours from
  now"; \<open>setHours (getHours () + 72)\<close> adds the 72 hours to the local
  wall-clock reading instead. On a host in New York a call at 12:00 UTC on
  7 March 2026, the day before daylight saving time starts, answers and
  stores an expiry that is 71 hours after the call's time stamp.
\<close>

theorem expiry_new_york_71_hours:
  "fst (POST_approve (approval_env\<lparr>zone := new_york_zone\<rparr>) jane_store (Str ''req-1'')) =
     Approve_ok ''FC-AAAAAAAA'' (date_now approval_env + 71 * msPerHour) \<and>
   map c_expires_at
     (founders_invite_codes
        (snd (POST_approve (approval_env\<lparr>zone := new_york_zone\<rparr>) jane_store (Str ''req-1'')))) =
     [date_now approval_env + 71 * msPerHour]"
  by (simp add: approve_eval expiry_new_york msPerHour_def)

end
